theory Spec2Isabelle
  imports Complex_Main
begin

section \<open>Adapter fine-tuning script: finetune/adapter.py\<close>

text \<open>
  The development embeds the module-level hyperparameter block, the training loop
  \<open>train\<close>, \<open>validate\<close>, \<open>loss_fn\<close>, \<open>get_batch\<close> and
  \<open>save_adapter_checkpoint\<close> of \<^verbatim>\<open>finetune/adapter.py\<close>.

  Conventions. Python \<open>int\<close> is \<^typ>\<open>int\<close>; Python and torch floating point numbers
  are read as exact \<^typ>\<open>real\<close> numbers (rounding is not modelled); an exception is a value
  of type \<open>error\<close> returned on the left of a sum. Calls into torch, Lightning Fabric and the
  other modules of the repository are recorded, in program order, in an event trace carried
  by the state.
\<close>

subsection \<open>Exceptions\<close>

datatype error = ZeroDivisionError | AssertionError | ValueError | RuntimeError | IndexError

definition and_then :: "error + 'a \<Rightarrow> ('a \<Rightarrow> error + 'b) \<Rightarrow> error + 'b" where
  "and_then r f = (case r of Inl e \<Rightarrow> Inl e | Inr a \<Rightarrow> f a)"

subsection \<open>Module-level hyperparameters (lines 26 to 42)\<close>

text \<open>
  The literals of the module that a configuration may vary. \<open>batch_size\<close>,
  \<open>gradient_accumulation_iters\<close>, \<open>max_iters\<close> and \<open>warmup_iters\<close> are derived.
\<close>

record settings =
  eval_interval :: int
  save_interval :: int
  eval_iters :: int
  log_interval :: int
  devices :: int
  learning_rate :: real
  micro_batch_size :: int
  epoch_size :: int
  num_epochs :: int
  weight_decay :: real

record hparams = settings +
  batch_size :: real
  gradient_accumulation_iters :: int
  max_iters :: int
  warmup_iters :: int

text \<open>The values written in the source.\<close>

definition source_settings :: settings where
  "source_settings =
     \<lparr>eval_interval = 60, save_interval = 10, eval_iters = 100, log_interval = 1, devices = 1,
      learning_rate = 9 / 1000, micro_batch_size = 4, epoch_size = 50000, num_epochs = 5,
      weight_decay = 2 / 100\<rparr>"

text \<open>
  \<^verbatim>\<open>batch_size = 64 / devices\<close> is Python true division: a float, and ZeroDivisionError
  for \<open>devices = 0\<close>.
\<close>

definition batch_size_of :: "settings \<Rightarrow> error + real" where
  "batch_size_of st =
     (if devices st = 0 then Inl ZeroDivisionError else Inr (64 / of_int (devices st)))"

text \<open>
  \<^verbatim>\<open>gradient_accumulation_iters = batch_size // micro_batch_size\<close> followed by
  \<^verbatim>\<open>assert gradient_accumulation_iters > 0\<close>. Floor division of a float by an int gives
  an integral float; the model keeps its integer value.
\<close>

definition gradient_accumulation_iters_of :: "real \<Rightarrow> int \<Rightarrow> error + int" where
  "gradient_accumulation_iters_of bs mbs =
     (if mbs = 0 then Inl ZeroDivisionError
      else let g = \<lfloor>bs / of_int mbs\<rfloor> in
        if g > 0 then Inr g else Inl AssertionError)"

text \<open>
  The whole block, in the order of the source: lines 34, 36, 37, 40 and 42. The integer
  floor divisions of lines 40 and 42 divide by \<open>micro_batch_size\<close> and \<open>devices\<close>, which
  are non-zero once line 36 has been passed.
\<close>

definition configure :: "settings \<Rightarrow> error + hparams" where
  "configure st =
     and_then (batch_size_of st) (\<lambda>bs.
     and_then (gradient_accumulation_iters_of bs (micro_batch_size st)) (\<lambda>g.
       Inr (settings.extend st
         \<lparr>batch_size = bs,
          gradient_accumulation_iters = g,
          max_iters = num_epochs st * (epoch_size st div micro_batch_size st) div devices st,
          warmup_iters = 2 * (epoch_size st div micro_batch_size st) div devices st\<rparr>)))"

subsection \<open>Model parameters and the AdamW optimizer\<close>

text \<open>
  A named parameter of the model together with the optimizer's per-parameter state.
  \<open>p_grad = None\<close> is torch's \<^verbatim>\<open>param.grad is None\<close>, the state after
  \<^verbatim>\<open>optimizer.zero_grad()\<close>.
\<close>

record param =
  p_name :: string
  p_data :: real
  requires_grad :: bool
  p_grad :: "real option"
  exp_avg :: real
  exp_avg_sq :: real
  opt_step :: nat

definition beta1 :: real where "beta1 = 9 / 10"
definition beta2 :: real where "beta2 = 999 / 1000"
definition eps :: real where "eps = 1 / 10 ^ 8"

text \<open>
  One step of \<^verbatim>\<open>torch.optim.AdamW\<close> (default betas and eps, no amsgrad) on a single
  parameter, as documented by PyTorch; a parameter without gradient is skipped.
\<close>

definition adamw_param :: "real \<Rightarrow> real \<Rightarrow> param \<Rightarrow> param" where
  "adamw_param rate wd p =
     (case p_grad p of
        None \<Rightarrow> p
      | Some g \<Rightarrow>
          let t = opt_step p + 1;
              th = p_data p - rate * wd * p_data p;
              m = beta1 * exp_avg p + (1 - beta1) * g;
              v = beta2 * exp_avg_sq p + (1 - beta2) * g\<^sup>2;
              mh = m / (1 - beta1 ^ t);
              vh = v / (1 - beta2 ^ t)
          in p\<lparr>p_data := th - rate * mh / (sqrt vh + eps),
               exp_avg := m, exp_avg_sq := v, opt_step := t\<rparr>)"

text \<open>
  \<^verbatim>\<open>fabric.backward(loss / gradient_accumulation_iters)\<close>: the gradient \<open>g i\<close> of the
  scaled loss with respect to the \<open>i\<close>-th parameter is added to what that parameter has
  accumulated. Frozen parameters receive nothing.
\<close>

definition accumulate :: "real \<Rightarrow> param \<Rightarrow> param" where
  "accumulate g p =
     (if requires_grad p
      then p\<lparr>p_grad := Some ((case p_grad p of None \<Rightarrow> 0 | Some a \<Rightarrow> a) + g)\<rparr>
      else p)"

definition backward :: "(nat \<Rightarrow> real) \<Rightarrow> param list \<Rightarrow> param list" where
  "backward g ps = map (\<lambda>(i, p). accumulate (g i) p) (enumerate 0 ps)"

definition zero_grad :: "param list \<Rightarrow> param list" where
  "zero_grad ps = map (\<lambda>p. p\<lparr>p_grad := None\<rparr>) ps"

subsection \<open>State and trace\<close>

datatype fl = NaN | Fin real

datatype ckpt_path =
    IterCkpt int   \<comment> \<open>\<^verbatim>\<open>out_dir / f"iter-{iter_num:06d}-ckpt.pth"\<close>\<close>
  | FinalCkpt      \<comment> \<open>\<^verbatim>\<open>out_dir / "lit_model_adapter_finetuned.pth"\<close>\<close>

datatype event =
    GetBatch
  | Forward bool bool        \<comment> \<open>the model and \<open>loss_fn\<close> on a batch: model.training, grad tracking\<close>
  | Backward int bool        \<comment> \<open>iteration, \<open>no_backward_sync\<close> enabled\<close>
  | OptimizerStep real       \<comment> \<open>\<^verbatim>\<open>optimizer.step()\<close> at this learning rate\<close>
  | MarkStep                 \<comment> \<open>\<^verbatim>\<open>xm.mark_step()\<close>\<close>
  | ZeroGrad                 \<comment> \<open>\<^verbatim>\<open>optimizer.zero_grad()\<close>\<close>
  | BatchEnd int             \<comment> \<open>\<^verbatim>\<open>speed_monitor.on_train_batch_end\<close>, samples\<close>
  | PrintIter int int        \<comment> \<open>the log line: iteration, step count\<close>
  | Generate nat real        \<comment> \<open>\<^verbatim>\<open>generate\<close>: max_returned_tokens, temperature\<close>
  | EvalEnd
  | PrintVal int fl          \<comment> \<open>the validation log line: iteration, loss\<close>
  | Barrier
  | Saved ckpt_path "(string \<times> real) list"   \<comment> \<open>a written checkpoint artifact\<close>

record state =
  step_count :: int
  lr :: real                 \<comment> \<open>\<^verbatim>\<open>param_group["lr"]\<close> of the optimizer\<close>
  model :: "param list"
  training :: bool           \<comment> \<open>\<^verbatim>\<open>model.training\<close>\<close>
  grad_enabled :: bool       \<comment> \<open>\<^verbatim>\<open>torch.is_grad_enabled()\<close>\<close>
  events :: "event list"

text \<open>
  What the script takes from outside: the device kind, the gradient of each training
  micro-batch's loss, the loss of each validation batch, the length of the encoded preview
  prompt and \<open>adapter_filter\<close> of \<^verbatim>\<open>lit_parrot.adapter\<close>.
\<close>

record env =
  xla :: bool
  dloss :: "int \<Rightarrow> real list \<Rightarrow> nat \<Rightarrow> real"
  vloss :: "real list \<Rightarrow> nat \<Rightarrow> real"
  prompt_len :: nat
  adapter_filter :: "string \<Rightarrow> real \<Rightarrow> bool"

definition emit :: "event list \<Rightarrow> state \<Rightarrow> state" where
  "emit es s = s\<lparr>events := events s @ es\<rparr>"

subsection \<open>save_adapter_checkpoint (lines 268 to 270)\<close>

definition state_dict :: "param list \<Rightarrow> (string \<times> real) list" where
  "state_dict ps = map (\<lambda>p. (p_name p, p_data p)) ps"

text \<open>
  Modelled from the spec: \<^verbatim>\<open>fabric.save\<close> with a filter is Lightning Fabric's and not
  part of the sources; section 4.6 of the specification says that it produces an artifact
  containing only the parameters for which the predicate is true.
\<close>

definition fabric_save :: "(string \<Rightarrow> real \<Rightarrow> bool) \<Rightarrow> (string \<times> real) list \<Rightarrow> (string \<times> real) list" where
  "fabric_save flt sd = filter (\<lambda>(k, v). flt k v) sd"

definition save_adapter_checkpoint :: "env \<Rightarrow> ckpt_path \<Rightarrow> state \<Rightarrow> state" where
  "save_adapter_checkpoint ev file_path s =
     emit [Saved file_path (fabric_save (adapter_filter ev) (state_dict (model s)))] s"

subsection \<open>validate (lines 205 to 233)\<close>

text \<open>
  The decorator \<^verbatim>\<open>torch.no_grad()\<close> switches gradient tracking off for the call and
  restores it afterwards. Inside: \<^verbatim>\<open>model.eval()\<close>, one batch, forward pass and loss per
  \<open>k\<close> in \<open>range(eval_iters)\<close>, the mean of the buffer, the generated preview and
  \<^verbatim>\<open>model.train()\<close>. \<^verbatim>\<open>losses = torch.zeros(eval_iters)\<close> raises for a negative size; the
  mean of an empty tensor is NaN.
\<close>

definition mean :: "real list \<Rightarrow> fl" where
  "mean xs = (if xs = [] then NaN else Fin (sum_list xs / of_nat (length xs)))"

definition validate :: "hparams \<Rightarrow> env \<Rightarrow> state \<Rightarrow> error + (fl \<times> state)" where
  "validate hp ev s =
     (let prev = grad_enabled s;
          s1 = s\<lparr>grad_enabled := False\<rparr>;
          s2 = s1\<lparr>training := False\<rparr>
      in if eval_iters hp < 0 then Inl RuntimeError
         else
           let ks = [0..<nat (eval_iters hp)];
               losses = map (vloss ev (map p_data (model s2))) ks;
               s3 = emit (concat (map (\<lambda>k. [GetBatch, Forward (training s2) (grad_enabled s2)]) ks)) s2;
               val_loss = mean losses;
               s4 = emit [Generate (prompt_len ev + 100) (8 / 10)] s3;
               s5 = s4\<lparr>training := True\<rparr>
           in Inr (val_loss, s5\<lparr>grad_enabled := prev\<rparr>))"

subsection \<open>train (lines 119 to 202)\<close>

definition is_accumulating :: "hparams \<Rightarrow> int \<Rightarrow> bool" where
  "is_accumulating hp iter_num = ((iter_num + 1) mod gradient_accumulation_iters hp \<noteq> 0)"

text \<open>Lines 152 to 156: linear warmup.\<close>

definition warmup :: "hparams \<Rightarrow> state \<Rightarrow> error + state" where
  "warmup hp s =
     (if step_count s \<le> warmup_iters hp then
        (if warmup_iters hp = 0 then Inl ZeroDivisionError
         else Inr (s\<lparr>lr := learning_rate hp * of_int (step_count s) / of_int (warmup_iters hp)\<rparr>))
      else Inr s)"

text \<open>Lines 160 to 166: batch, forward, loss and backward of the scaled loss.\<close>

definition forward_backward :: "hparams \<Rightarrow> env \<Rightarrow> int \<Rightarrow> state \<Rightarrow> error + state" where
  "forward_backward hp ev iter_num s =
     (if gradient_accumulation_iters hp = 0 then Inl ZeroDivisionError
      else
        let g = (\<lambda>i. dloss ev iter_num (map p_data (model s)) i
                      / of_int (gradient_accumulation_iters hp))
        in Inr (emit [GetBatch, Forward (training s) (grad_enabled s),
                      Backward iter_num (is_accumulating hp iter_num)]
                 (s\<lparr>model := backward g (model s)\<rparr>)))"

text \<open>Lines 168 to 175: the optimizer step that closes an accumulation group.\<close>

definition optimizer_update :: "hparams \<Rightarrow> env \<Rightarrow> int \<Rightarrow> state \<Rightarrow> state" where
  "optimizer_update hp ev iter_num s =
     (if \<not> is_accumulating hp iter_num then
        let s1 = emit [OptimizerStep (lr s)]
                   (s\<lparr>model := map (adamw_param (lr s) (weight_decay hp)) (model s)\<rparr>);
            s2 = (if xla ev then emit [MarkStep] s1 else s1);
            s3 = emit [ZeroGrad] (s2\<lparr>model := zero_grad (model s2)\<rparr>)
        in s3\<lparr>step_count := step_count s3 + 1\<rparr>
      else if xla ev then emit [MarkStep] s
      else s)"

text \<open>Lines 177 to 191: speed monitor and log line.\<close>

definition instrument :: "hparams \<Rightarrow> int \<Rightarrow> state \<Rightarrow> error + state" where
  "instrument hp iter_num s =
     (let s1 = emit [BatchEnd ((iter_num + 1) * micro_batch_size hp)] s
      in if log_interval hp = 0 then Inl ZeroDivisionError
         else if iter_num mod log_interval hp = 0
           then Inr (emit [PrintIter iter_num (step_count s1)] s1)
         else Inr s1)"

text \<open>Lines 193 to 199: periodic validation.\<close>

definition periodic_validate :: "hparams \<Rightarrow> env \<Rightarrow> int \<Rightarrow> state \<Rightarrow> error + state" where
  "periodic_validate hp ev iter_num s =
     (if is_accumulating hp iter_num then Inr s
      else if eval_interval hp = 0 then Inl ZeroDivisionError
      else if step_count s mod eval_interval hp = 0 then
        and_then (validate hp ev s) (\<lambda>(val_loss, s1).
          Inr (emit [EvalEnd, PrintVal iter_num val_loss, Barrier] s1))
      else Inr s)"

text \<open>Lines 200 to 202: periodic checkpoint.\<close>

definition periodic_save :: "hparams \<Rightarrow> env \<Rightarrow> int \<Rightarrow> state \<Rightarrow> error + state" where
  "periodic_save hp ev iter_num s =
     (if is_accumulating hp iter_num then Inr s
      else if save_interval hp = 0 then Inl ZeroDivisionError
      else if step_count s mod save_interval hp = 0
        then Inr (save_adapter_checkpoint ev (IterCkpt iter_num) s)
      else Inr s)"

text \<open>The body of the \<^verbatim>\<open>for\<close> loop.\<close>

definition train_iter :: "hparams \<Rightarrow> env \<Rightarrow> int \<Rightarrow> state \<Rightarrow> error + state" where
  "train_iter hp ev iter_num s =
     and_then (warmup hp s) (\<lambda>s1.
     and_then (forward_backward hp ev iter_num s1) (\<lambda>s2.
     and_then (instrument hp iter_num (optimizer_update hp ev iter_num s2)) (\<lambda>s3.
     and_then (periodic_validate hp ev iter_num s3) (\<lambda>s4.
       periodic_save hp ev iter_num s4))))"

text \<open>
  \<^verbatim>\<open>for iter_num in range(...)\<close>: \<open>n\<close> iterations starting at \<open>iter_num\<close>; an exception
  ends the loop.
\<close>

fun train_loop :: "hparams \<Rightarrow> env \<Rightarrow> int \<Rightarrow> nat \<Rightarrow> state \<Rightarrow> error + state" where
  "train_loop hp ev iter_num 0 s = Inr s"
| "train_loop hp ev iter_num (Suc n) s =
     and_then (train_iter hp ev iter_num s) (train_loop hp ev (iter_num + 1) n)"

text \<open>
  \<open>train\<close> up to the loop (lines 130 to 150): the sanity validation, \<open>step_count = 0\<close> and
  the first \<open>mark_step\<close> under XLA. The FLOP estimates only feed the speed monitor and are
  left out.
\<close>

definition train_setup :: "hparams \<Rightarrow> env \<Rightarrow> state \<Rightarrow> error + state" where
  "train_setup hp ev s =
     and_then (validate hp ev s) (\<lambda>(sanity, s1).
       let s2 = s1\<lparr>step_count := 0\<rparr>
       in Inr (if xla ev then emit [MarkStep] s2 else s2))"

text \<open>\<open>train\<close>: the set-up, then the loop over \<open>range(max_iters)\<close>.\<close>

definition train :: "hparams \<Rightarrow> env \<Rightarrow> state \<Rightarrow> error + state" where
  "train hp ev s =
     and_then (train_setup hp ev s) (train_loop hp ev 0 (nat (max_iters hp)))"

text \<open>
  \<open>main\<close> from the construction of the optimizer (line 104) on: the model \<open>ps\<close> is the one
  loaded and marked trainable before; AdamW starts at \<open>learning_rate\<close> with empty state.
  After \<open>train\<close> returns, the final checkpoint is written (lines 114 to 116).
\<close>

definition initial_state :: "hparams \<Rightarrow> param list \<Rightarrow> state" where
  "initial_state hp ps =
     \<lparr>step_count = 0, lr = learning_rate hp,
      model = map (\<lambda>p. p\<lparr>p_grad := None, exp_avg := 0, exp_avg_sq := 0, opt_step := 0\<rparr>) ps,
      training = True, grad_enabled = True, events = []\<rparr>"

definition main :: "hparams \<Rightarrow> env \<Rightarrow> param list \<Rightarrow> error + state" where
  "main hp ev ps =
     and_then (train hp ev (initial_state hp ps)) (\<lambda>s.
       Inr (save_adapter_checkpoint ev FinalCkpt s))"

subsection \<open>get_batch (lines 244 to 265)\<close>

text \<open>
  An example of the dataset, and a two-dimensional \<^verbatim>\<open>int64\<close> tensor with the device
  that holds it.
\<close>

record example =
  input_ids :: "int list"
  labels :: "int list"

datatype device = CPU | CUDA | MPS | XLA

record tensor =
  rows :: "int list list"
  on_device :: device

text \<open>A list comprehension whose body may raise: the first exception ends it.\<close>

fun collect :: "(error + 'a) list \<Rightarrow> error + 'a list" where
  "collect [] = Inr []"
| "collect (r # rs) = and_then r (\<lambda>a. and_then (collect rs) (\<lambda>as. Inr (a # as)))"

text \<open>
  \<^verbatim>\<open>pad_right\<close>: \<^verbatim>\<open>torch.full((n,), pad_id)\<close> raises for a negative size \<open>n\<close>.
\<close>

definition pad_right :: "int \<Rightarrow> int list \<Rightarrow> int \<Rightarrow> error + int list" where
  "pad_right max_len x pad_id =
     (let n = max_len - int (length x)
      in if n < 0 then Inl RuntimeError else Inr (x @ replicate (nat n) pad_id))"

text \<open>\<^verbatim>\<open>torch.stack\<close> needs at least one tensor, and tensors of one size.\<close>

definition stack :: "int list list \<Rightarrow> error + int list list" where
  "stack ts =
     (if ts = [] then Inl RuntimeError
      else if list_all (\<lambda>t. length t = length (hd ts)) ts then Inr ts
      else Inl RuntimeError)"

text \<open>
  Line 250: the longest selected \<open>input_ids\<close>, or \<open>max_seq_length\<close> on an XLA device;
  \<^verbatim>\<open>max\<close> of an empty sequence raises.
\<close>

definition max_len_of :: "device \<Rightarrow> int list list \<Rightarrow> int \<Rightarrow> error + int" where
  "max_len_of dev ids max_seq_length =
     (if dev \<noteq> XLA
      then (if ids = [] then Inl ValueError else Inr (Max (set (map (\<lambda>s. int (length s)) ids))))
      else Inr max_seq_length)"

text \<open>
  \<open>get_batch\<close>, given the indices \<open>ix\<close> that \<^verbatim>\<open>torch.randint(len(data), (micro_batch_size,))\<close>
  drew; \<^verbatim>\<open>randint\<close> raises on an empty dataset. Both results are moved to the device of
  \<open>fabric\<close>.
\<close>

definition get_batch :: "device \<Rightarrow> example list \<Rightarrow> int \<Rightarrow> nat list \<Rightarrow> error + (tensor \<times> tensor)" where
  "get_batch dev data max_seq_length ix =
     (if data = [] then Inl RuntimeError
      else
        and_then (collect (map (\<lambda>i. if i < length data then Inr (data ! i) else Inl IndexError) ix))
          (\<lambda>sel.
        and_then (max_len_of dev (map input_ids sel) max_seq_length) (\<lambda>max_len.
        and_then (collect (map (\<lambda>x. pad_right max_len x 0) (map input_ids sel))) (\<lambda>xs.
        and_then (stack xs) (\<lambda>x.
        and_then (collect (map (\<lambda>x. pad_right max_len x (- 1)) (map labels sel))) (\<lambda>ys.
        and_then (stack ys) (\<lambda>y.
          Inr (\<lparr>rows = x, on_device = dev\<rparr>, \<lparr>rows = y, on_device = dev\<rparr>))))))))"

text \<open>
  Line 245, \<^verbatim>\<open>torch.randint(len(data), (micro_batch_size,))\<close>, as documented by PyTorch:
  the indices are drawn uniformly below the bound and independently of each other. The
  model lists the equally likely outcomes of the draw, one for every sequence of
  \<open>micro_batch_size\<close> indices; the call raises for a bound that is not positive and for a
  negative size.
\<close>

definition randint :: "int \<Rightarrow> int \<Rightarrow> error + nat list list" where
  "randint high n =
     (if high \<le> 0 \<or> n < 0 then Inl RuntimeError
      else Inr (List.n_lists (nat n) [0..<nat high]))"

text \<open>
  \<open>get_batch\<close> with its draw: the equally likely outcomes of a call, each a pair of
  tensors or an exception.
\<close>

definition get_batch_outcomes ::
    "device \<Rightarrow> example list \<Rightarrow> int \<Rightarrow> int \<Rightarrow> error + (error + (tensor \<times> tensor)) list" where
  "get_batch_outcomes dev data max_seq_length mbs =
     and_then (randint (int (length data)) mbs) (\<lambda>draws.
       Inr (map (get_batch dev data max_seq_length) draws))"

subsection \<open>loss_fn (lines 236 to 241)\<close>

text \<open>
  Logits are a batch of sequences of rows of class scores, targets a batch of sequences of
  class indices. \<open>log_softmax_at x c\<close> is entry \<open>c\<close> of the log-softmax of the row \<open>x\<close>.
\<close>

definition log_softmax_at :: "real list \<Rightarrow> nat \<Rightarrow> real" where
  "log_softmax_at x c = x ! c - ln (sum_list (map exp x))"

text \<open>
  \<^verbatim>\<open>torch.nn.functional.cross_entropy(input, target, ignore_index)\<close> with the default mean
  reduction, as documented by PyTorch: the numbers of rows and of targets must agree, a
  target other than \<open>ignore_index\<close> must be a class index, and the result is the mean of
  the negative log-likelihoods over the targets that are not ignored, NaN when all are.
\<close>

definition cross_entropy :: "real list list \<Rightarrow> int list \<Rightarrow> int \<Rightarrow> error + fl" where
  "cross_entropy inp target ignore_index =
     (if length inp \<noteq> length target then Inl ValueError
      else
        let kept = filter (\<lambda>(x, t). t \<noteq> ignore_index) (zip inp target)
        in if list_ex (\<lambda>(x, t). t < 0 \<or> int (length x) \<le> t) kept then Inl IndexError
           else if kept = [] then Inr NaN
           else Inr (Fin (sum_list (map (\<lambda>(x, t). - log_softmax_at x (nat t)) kept)
                           / of_nat (length kept))))"

text \<open>
  \<open>loss_fn\<close>: \<^verbatim>\<open>logits[..., :-1, :]\<close> drops the last row of every sequence,
  \<^verbatim>\<open>targets[..., 1:]\<close> the first target; the two \<^verbatim>\<open>view\<close> calls flatten batch and time.
\<close>

definition loss_fn :: "real list list list \<Rightarrow> int list list \<Rightarrow> error + fl" where
  "loss_fn logits targets =
     (let logits1 = map butlast logits;
          targets1 = map tl targets
      in cross_entropy (concat logits1) (concat targets1) (- 1))"

subsection \<open>The script\<close>

text \<open>
  The script as a whole: the module-level block runs when the module is loaded, \<open>main\<close>
  only afterwards and only if the block raised nothing.
\<close>

definition script :: "settings \<Rightarrow> env \<Rightarrow> param list \<Rightarrow> error + state" where
  "script st ev ps = and_then (configure st) (\<lambda>hp. main hp ev ps)"

subsection \<open>Line 154 in double precision\<close>






subsection \<open>Notions used to state the properties\<close>

text \<open>
  The events that touch gradients or the optimizer: backward passes, optimizer steps,
  gradient resets and the XLA barrier between them.
\<close>

definition core :: "event \<Rightarrow> bool" where
  "core e = (case e of Backward _ _ \<Rightarrow> True | OptimizerStep _ \<Rightarrow> True | MarkStep \<Rightarrow> True
     | ZeroGrad \<Rightarrow> True | _ \<Rightarrow> False)"

text \<open>The learning rate in force during an iteration that starts in state \<open>s\<close>.\<close>

definition warm_lr :: "hparams \<Rightarrow> state \<Rightarrow> real" where
  "warm_lr hp s = (if step_count s \<le> warmup_iters hp
     then learning_rate hp * of_int (step_count s) / of_int (warmup_iters hp) else lr s)"

text \<open>
  The gradient events of \<open>n\<close> consecutive accumulating iterations starting at \<open>i0\<close>: one
  unsynchronised backward pass each, followed by the XLA barrier on that device.
\<close>

definition acc_trace :: "env \<Rightarrow> int \<Rightarrow> nat \<Rightarrow> event list" where
  "acc_trace ev i0 n =
     concat (map (\<lambda>j. Backward (i0 + int j) True # (if xla ev then [MarkStep] else [])) [0..<n])"

text \<open>The optimizer steps of a trace, and the checkpoints it wrote.\<close>

definition opt_steps :: "event list \<Rightarrow> real list" where
  "opt_steps es = concat (map (\<lambda>e. case e of OptimizerStep r \<Rightarrow> [r] | _ \<Rightarrow> []) es)"

definition saved_paths :: "event list \<Rightarrow> ckpt_path list" where
  "saved_paths es = concat (map (\<lambda>e. case e of Saved f a \<Rightarrow> [f] | _ \<Rightarrow> []) es)"

text \<open>The forward passes of a trace, each with the model's mode and the gradient switch.\<close>

definition forwards :: "event list \<Rightarrow> (bool \<times> bool) list" where
  "forwards es = concat (map (\<lambda>e. case e of Forward t g \<Rightarrow> [(t, g)] | _ \<Rightarrow> []) es)"

text \<open>
  The iterations below \<open>n\<close> that close an accumulation group with a step count divisible
  by \<open>save_interval\<close>; \<open>(i + 1) div gradient_accumulation_iters\<close> is the step counter once
  iteration \<open>i\<close> has incremented it.
\<close>

definition save_iters :: "hparams \<Rightarrow> nat \<Rightarrow> int list" where
  "save_iters hp n =
     filter (\<lambda>i. \<not> is_accumulating hp i
                \<and> ((i + 1) div gradient_accumulation_iters hp) mod save_interval hp = 0)
       (map int [0..<n])"

text \<open>The probability of an event among equally likely outcomes.\<close>

definition chance :: "'a list \<Rightarrow> ('a \<Rightarrow> bool) \<Rightarrow> real" where
  "chance outcomes P = of_nat (length (filter P outcomes)) / of_nat (length outcomes)"

text \<open>The length every row is padded to, for a draw that selects at least one example.\<close>

definition pad_len :: "device \<Rightarrow> example list \<Rightarrow> int \<Rightarrow> nat list \<Rightarrow> int" where
  "pad_len dev data max_seq_length ix =
     (if dev \<noteq> XLA then Max (set (map (\<lambda>i. int (length (input_ids (data ! i)))) ix))
      else max_seq_length)"

text \<open>A row padded on the right to \<open>max_len\<close> entries.\<close>

definition padded :: "int \<Rightarrow> int \<Rightarrow> int list \<Rightarrow> int list" where
  "padded max_len pad_id x = x @ replicate (nat (max_len - int (length x))) pad_id"

text \<open>
  The loss of section 4.3 of the specification, by positions: for a batch of \<open>B\<close> sequences
  of \<open>S\<close> time steps, the positions \<open>(b, t)\<close> with \<open>t < S - 1\<close> whose next target
  \<open>targets[b][t + 1]\<close> is not \<open>-1\<close>, and the mean over them of the cross-entropy of
  \<open>logits[b][t]\<close> against that target.
\<close>

definition positions :: "nat \<Rightarrow> nat \<Rightarrow> int list list \<Rightarrow> (nat \<times> nat) list" where
  "positions B S targets =
     filter (\<lambda>(b, t). targets ! b ! (t + 1) \<noteq> - 1) (List.product [0..<B] [0..<S - 1])"

definition masked_mean_ce :: "nat \<Rightarrow> nat \<Rightarrow> real list list list \<Rightarrow> int list list \<Rightarrow> fl" where
  "masked_mean_ce B S logits targets =
     (let ps = positions B S targets
      in if ps = [] then NaN
         else Fin (sum_list (map (\<lambda>(b, t). - log_softmax_at (logits ! b ! t)
                                               (nat (targets ! b ! (t + 1)))) ps)
                   / of_nat (length ps)))"

text \<open>Shapes \<open>(B, S, vocab)\<close> and \<open>(B, S)\<close>, with every target that counts a class index.\<close>

definition well_shaped :: "nat \<Rightarrow> nat \<Rightarrow> real list list list \<Rightarrow> int list list \<Rightarrow> bool" where
  "well_shaped B S logits targets \<longleftrightarrow>
     length logits = B \<and> length targets = B
   \<and> (\<forall>b < B. length (logits ! b) = S \<and> length (targets ! b) = S)
   \<and> (\<forall>b < B. \<forall>t < S - 1. targets ! b ! (t + 1) = - 1
          \<or> (0 \<le> targets ! b ! (t + 1)
              \<and> targets ! b ! (t + 1) < int (length (logits ! b ! t))))"

text \<open>The value of a loss, where it is a number.\<close>

definition loss_value :: "error + fl \<Rightarrow> real" where
  "loss_value r = (case r of Inr (Fin v) \<Rightarrow> v | _ \<Rightarrow> 0)"

text \<open>The logits with the score of class \<open>c\<close> at position \<open>(b, t)\<close> replaced.\<close>

definition with_logit :: "real list list list \<Rightarrow> nat \<Rightarrow> nat \<Rightarrow> nat \<Rightarrow> real \<Rightarrow> real list list list" where
  "with_logit logits b t c v = logits[b := (logits ! b)[t := (logits ! b ! t)[c := v]]]"

subsection \<open>Small inputs\<close>

text \<open>
  Sixteen devices and micro-batches of two examples: a batch of four examples per device,
  accumulation groups of two iterations, four iterations in all.
\<close>

definition demo_settings :: settings where
  "demo_settings =
     \<lparr>eval_interval = 2, save_interval = 1, eval_iters = 1, log_interval = 1, devices = 16,
      learning_rate = 9 / 1000, micro_batch_size = 2, epoch_size = 128, num_epochs = 1,
      weight_decay = 2 / 100\<rparr>"

definition demo_hparams :: hparams where
  "demo_hparams = settings.extend demo_settings
     \<lparr>batch_size = 4, gradient_accumulation_iters = 2, max_iters = 4, warmup_iters = 8\<rparr>"

definition demo_env :: env where
  "demo_env = \<lparr>xla = False, dloss = (\<lambda>i ps k. 1), vloss = (\<lambda>ps k. 1), prompt_len = 3,
     adapter_filter = (\<lambda>k v. k = ''gating_factor'')\<rparr>"

definition demo_model :: "param list" where
  "demo_model =
     [\<lparr>p_name = ''wte'', p_data = 1, requires_grad = False, p_grad = None,
       exp_avg = 0, exp_avg_sq = 0, opt_step = 0\<rparr>,
      \<lparr>p_name = ''gating_factor'', p_data = 0, requires_grad = True, p_grad = None,
       exp_avg = 0, exp_avg_sq = 0, opt_step = 0\<rparr>]"


text \<open>A dataset of two examples whose labels are no longer than their inputs.\<close>

definition two_examples :: "example list" where
  "two_examples = [\<lparr>input_ids = [1, 2, 3], labels = [1, 2]\<rparr>, \<lparr>input_ids = [1], labels = [7]\<rparr>]"

text \<open>A dataset with one example whose labels are longer than its input.\<close>

definition long_labels :: "example list" where
  "long_labels = [\<lparr>input_ids = [1], labels = [1, 2]\<rparr>]"

text \<open>
  One sequence of three time steps over two classes with all scores equal; the first
  target is dropped by the shift, the last is the ignore index.
\<close>

definition uniform_logits :: "real list list list" where
  "uniform_logits = [[[0, 0], [0, 0], [0, 0]]]"

definition demo_targets :: "int list list" where
  "demo_targets = [[5, 1, - 1]]"

section \<open>Properties of the training script\<close>

subsection \<open>Auxiliary facts\<close>

lemma and_then_Inr [simp]: "and_then (Inr a) f = f a"
  by (simp add: and_then_def)

lemma and_then_Inl [simp]: "and_then (Inl e) f = Inl e"
  by (simp add: and_then_def)

subsection \<open>The loop, iteration by iteration\<close>

lemma train_loop_add:
  "train_loop hp ev i (m + n) s
     = and_then (train_loop hp ev i m s) (train_loop hp ev (i + int m) n)"
proof (induction m arbitrary: i s)
  case 0
  show ?case by simp
next
  case (Suc m)
  show ?case
  proof (cases "train_iter hp ev i s")
    case (Inl e)
    then show ?thesis by simp
  next
    case (Inr s1)
    have "i + 1 + int m = i + int (Suc m)" by simp
    with Inr Suc.IH [of "i + 1" s1] show ?thesis by simp
  qed
qed

lemma train_loop_snoc:
  "train_loop hp ev i (Suc n) s = and_then (train_loop hp ev i n s) (train_iter hp ev (i + int n))"
proof -
  have "train_loop hp ev i (n + 1) s
      = and_then (train_loop hp ev i n s) (train_loop hp ev (i + int n) 1)"
    by (rule train_loop_add)
  moreover have "train_loop hp ev j 1 t = train_iter hp ev j t" for j t
    by (cases "train_iter hp ev j t") simp_all
  then have "train_loop hp ev (i + int n) 1 = train_iter hp ev (i + int n)"
    by (rule ext)
  ultimately show ?thesis by simp
qed

lemma train_iter_accumulating:
  assumes G: "0 < gradient_accumulation_iters hp"
    and W: "warmup_iters hp \<noteq> 0" and L: "log_interval hp \<noteq> 0"
    and A: "is_accumulating hp i"
  shows "\<exists>s' es. train_iter hp ev i s = Inr s' \<and> step_count s' = step_count s
           \<and> lr s' = warm_lr hp s
           \<and> events s' = events s @ es
           \<and> filter core es = Backward i True # (if xla ev then [MarkStep] else [])"
  using assms
  by (auto simp: train_iter_def warmup_def forward_backward_def optimizer_update_def
      instrument_def periodic_validate_def periodic_save_def emit_def core_def Let_def
      warm_lr_def)


lemma filter_core_batches [simp]:
  "filter core (concat (map (\<lambda>k. [GetBatch, Forward a b]) ks)) = []"
  by (induction ks) (simp_all add: core_def)


lemma train_iter_stepping:
  assumes G: "0 < gradient_accumulation_iters hp"
    and W: "warmup_iters hp \<noteq> 0" and L: "log_interval hp \<noteq> 0"
    and E: "eval_interval hp \<noteq> 0" and S: "save_interval hp \<noteq> 0"
    and V: "0 \<le> eval_iters hp"
    and A: "\<not> is_accumulating hp i"
  shows "\<exists>s' es. train_iter hp ev i s = Inr s' \<and> step_count s' = step_count s + 1
           \<and> events s' = events s @ es
           \<and> filter core es = [Backward i False, OptimizerStep (warm_lr hp s)]
                @ (if xla ev then [MarkStep] else []) @ [ZeroGrad]
           \<and> (\<forall>p \<in> set (model s'). p_grad p = None)"
  using assms
  by (auto simp: train_iter_def warmup_def forward_backward_def optimizer_update_def
      instrument_def periodic_validate_def periodic_save_def emit_def core_def Let_def
      validate_def save_adapter_checkpoint_def zero_grad_def warm_lr_def)


lemma accumulating_in_group:
  assumes "0 < gradient_accumulation_iters hp" "i0 mod gradient_accumulation_iters hp = 0"
    "int j + 1 < gradient_accumulation_iters hp"
  shows "is_accumulating hp (i0 + int j)"
proof -
  let ?G = "gradient_accumulation_iters hp"
  have "(i0 + int j + 1) mod ?G = (i0 mod ?G + (int j + 1) mod ?G) mod ?G"
    by (simp add: add.assoc mod_add_eq)
  also have "\<dots> = int j + 1"
    using assms by simp
  finally show ?thesis
    by (simp add: is_accumulating_def)
qed

lemma stepping_at_group_end:
  assumes "0 < gradient_accumulation_iters hp" "i0 mod gradient_accumulation_iters hp = 0"
  shows "\<not> is_accumulating hp (i0 + gradient_accumulation_iters hp - 1)"
  using assms by (simp add: is_accumulating_def)

lemma train_loop_accumulating:
  assumes G: "0 < gradient_accumulation_iters hp"
    and W: "warmup_iters hp \<noteq> 0" and L: "log_interval hp \<noteq> 0"
    and M: "i0 mod gradient_accumulation_iters hp = 0"
    and N: "int n < gradient_accumulation_iters hp"
  shows "\<exists>sn es. train_loop hp ev i0 n s = Inr sn \<and> step_count sn = step_count s
           \<and> lr sn = (if n = 0 then lr s else warm_lr hp s)
           \<and> events sn = events s @ es \<and> filter core es = acc_trace ev i0 n"
  using N
proof (induction n)
  case 0
  show ?case by (simp add: acc_trace_def)
next
  case (Suc n)
  then obtain sn es where sn: "train_loop hp ev i0 n s = Inr sn" "step_count sn = step_count s"
      "lr sn = (if n = 0 then lr s else warm_lr hp s)"
      "events sn = events s @ es" "filter core es = acc_trace ev i0 n"
    by auto
  have "is_accumulating hp (i0 + int n)"
    using G M Suc.prems by (intro accumulating_in_group) simp_all
  from train_iter_accumulating [OF G W L this, of ev sn]
  obtain s' es' where s': "train_iter hp ev (i0 + int n) sn = Inr s'"
      "step_count s' = step_count sn" "events s' = events sn @ es'"
      "lr s' = warm_lr hp sn"
      "filter core es' = Backward (i0 + int n) True # (if xla ev then [MarkStep] else [])"
    by blast
  have "train_loop hp ev i0 (Suc n) s = Inr s'"
    using sn(1) s'(1) by (simp add: train_loop_snoc del: train_loop.simps)
  moreover have "events s' = events s @ (es @ es')"
    using sn s' by simp
  moreover have "filter core (es @ es') = acc_trace ev i0 (Suc n)"
    using sn s' by (simp add: acc_trace_def)
  moreover have "lr s' = warm_lr hp s"
    using sn(2,3) s'(4) by (cases "n = 0") (simp_all add: warm_lr_def)
  ultimately show ?case
    using sn(2) s'(2) by (intro exI [of _ s'] exI [of _ "es @ es'"]) simp
qed

lemma train_loop_group:
  assumes G: "0 < gradient_accumulation_iters hp"
    and W: "warmup_iters hp \<noteq> 0" and L: "log_interval hp \<noteq> 0"
    and E: "eval_interval hp \<noteq> 0" and S: "save_interval hp \<noteq> 0"
    and V: "0 \<le> eval_iters hp"
    and M: "i0 mod gradient_accumulation_iters hp = 0"
  shows "\<exists>s' es. train_loop hp ev i0 (nat (gradient_accumulation_iters hp)) s = Inr s'
           \<and> step_count s' = step_count s + 1
           \<and> events s' = events s @ es
           \<and> filter core es =
                 acc_trace ev i0 (nat (gradient_accumulation_iters hp) - 1)
                 @ [Backward (i0 + gradient_accumulation_iters hp - 1) False,
                    OptimizerStep (warm_lr hp s)]
                 @ (if xla ev then [MarkStep] else []) @ [ZeroGrad]
           \<and> (\<forall>p \<in> set (model s'). p_grad p = None)"
proof -
  let ?G = "gradient_accumulation_iters hp"
  define n where "n = nat ?G - 1"
  have n: "Suc n = nat ?G" "int n < ?G" "i0 + int n = i0 + ?G - 1"
    using G by (simp_all add: n_def)
  from train_loop_accumulating [OF G W L M n(2), of ev s]
  obtain sn es where sn: "train_loop hp ev i0 n s = Inr sn" "step_count sn = step_count s"
      "lr sn = (if n = 0 then lr s else warm_lr hp s)"
      "events sn = events s @ es" "filter core es = acc_trace ev i0 n"
    by blast
  have "\<not> is_accumulating hp (i0 + int n)"
    unfolding n(3) by (rule stepping_at_group_end [OF G M])
  from train_iter_stepping [OF G W L E S V this, of ev sn]
  obtain s' es' where s': "train_iter hp ev (i0 + int n) sn = Inr s'"
      "step_count s' = step_count sn + 1" "events s' = events sn @ es'"
      "filter core es' = [Backward (i0 + int n) False, OptimizerStep (warm_lr hp sn)]
          @ (if xla ev then [MarkStep] else []) @ [ZeroGrad]"
      "\<forall>p \<in> set (model s'). p_grad p = None"
    by blast
  have w: "warm_lr hp sn = warm_lr hp s"
    using sn(2,3) by (cases "n = 0") (simp_all add: warm_lr_def)
  have "train_loop hp ev i0 (Suc n) s = Inr s'"
    using sn(1) s'(1) by (simp add: train_loop_snoc del: train_loop.simps)
  then have "train_loop hp ev i0 (nat ?G) s = Inr s'"
    using n(1) by simp
  moreover have "events s' = events s @ (es @ es')"
    using sn s' by simp
  moreover have "filter core (es @ es') = acc_trace ev i0 (nat ?G - 1)
      @ [Backward (i0 + ?G - 1) False, OptimizerStep (warm_lr hp s)]
      @ (if xla ev then [MarkStep] else []) @ [ZeroGrad]"
    using sn(5) s'(4) w n(3) by (simp add: n_def)
  ultimately show ?thesis
    using sn(2) s'(2,5) by (intro exI [of _ s'] exI [of _ "es @ es'"]) simp
qed

subsection \<open>Gradient accumulation\<close>

text \<open>
  Claim C1. An iteration is accumulating exactly when \<open>(iter_num + 1) mod
  gradient_accumulation_iters \<noteq> 0\<close>. Over one full accumulation group, the
  \<open>gradient_accumulation_iters\<close> iterations that start at a multiple \<open>i0\<close> of the group size:
  the step counter stays put through every proper prefix of the group, whose gradient
  events are unsynchronised backward passes only; the whole group performs exactly one
  optimizer step, after the synchronised backward pass of its last iteration, and the
  gradient reset follows that step directly (on XLA the device barrier stands between the
  two); afterwards the step counter is one larger and no parameter holds a gradient.
\<close>

theorem accumulation_group:
  assumes G: "0 < gradient_accumulation_iters hp"
    and W: "warmup_iters hp \<noteq> 0" and L: "log_interval hp \<noteq> 0"
    and E: "eval_interval hp \<noteq> 0" and S: "save_interval hp \<noteq> 0"
    and V: "0 \<le> eval_iters hp"
    and M: "i0 mod gradient_accumulation_iters hp = 0"
  shows "(\<forall>i. is_accumulating hp i \<longleftrightarrow> (i + 1) mod gradient_accumulation_iters hp \<noteq> 0)
    \<and> (\<forall>n. int n < gradient_accumulation_iters hp \<longrightarrow>
          (\<exists>sn es. train_loop hp ev i0 n s = Inr sn \<and> step_count sn = step_count s
             \<and> events sn = events s @ es \<and> filter core es = acc_trace ev i0 n))
    \<and> (\<exists>s' es. train_loop hp ev i0 (nat (gradient_accumulation_iters hp)) s = Inr s'
          \<and> step_count s' = step_count s + 1
          \<and> events s' = events s @ es
          \<and> filter core es =
                acc_trace ev i0 (nat (gradient_accumulation_iters hp) - 1)
                @ [Backward (i0 + gradient_accumulation_iters hp - 1) False,
                   OptimizerStep (warm_lr hp s)]
                @ (if xla ev then [MarkStep] else []) @ [ZeroGrad]
          \<and> (\<forall>p \<in> set (model s'). p_grad p = None))"
proof (intro conjI allI impI)
  fix i
  show "is_accumulating hp i \<longleftrightarrow> (i + 1) mod gradient_accumulation_iters hp \<noteq> 0"
    by (simp add: is_accumulating_def)
next
  fix n
  assume "int n < gradient_accumulation_iters hp"
  from train_loop_accumulating [OF G W L M this, of ev s]
  show "\<exists>sn es. train_loop hp ev i0 n s = Inr sn \<and> step_count sn = step_count s
          \<and> events sn = events s @ es \<and> filter core es = acc_trace ev i0 n"
    by blast
next
  show "\<exists>s' es. train_loop hp ev i0 (nat (gradient_accumulation_iters hp)) s = Inr s'
          \<and> step_count s' = step_count s + 1
          \<and> events s' = events s @ es
          \<and> filter core es =
                acc_trace ev i0 (nat (gradient_accumulation_iters hp) - 1)
                @ [Backward (i0 + gradient_accumulation_iters hp - 1) False,
                   OptimizerStep (warm_lr hp s)]
                @ (if xla ev then [MarkStep] else []) @ [ZeroGrad]
          \<and> (\<forall>p \<in> set (model s'). p_grad p = None)"
    by (rule train_loop_group [OF G W L E S V M])
qed

theorem accumulation_group_witness:
  "\<exists>s' es. train_loop demo_hparams demo_env 0 2 (initial_state demo_hparams demo_model) = Inr s'
     \<and> step_count s' = 1
     \<and> events s' = es
     \<and> filter core es = [Backward 0 True, Backward 1 False, OptimizerStep 0, ZeroGrad]"
proof -
  have h: "gradient_accumulation_iters demo_hparams = 2" "warmup_iters demo_hparams = 8"
    "log_interval demo_hparams = 1" "eval_interval demo_hparams = 2"
    "save_interval demo_hparams = 1" "eval_iters demo_hparams = 1"
    by (simp_all add: demo_hparams_def demo_settings_def settings.extend_def)
  have e: "\<not> xla demo_env"
    by (simp add: demo_env_def)
  have i: "step_count (initial_state demo_hparams demo_model) = 0"
    "events (initial_state demo_hparams demo_model) = []"
    by (simp_all add: initial_state_def)
  have w: "warm_lr demo_hparams (initial_state demo_hparams demo_model) = 0"
    by (simp add: warm_lr_def h i)
  have a: "acc_trace demo_env 0 (Suc 0) = [Backward 0 True]"
    by (simp add: acc_trace_def e)
  from accumulation_group [of demo_hparams 0 demo_env "initial_state demo_hparams demo_model"]
  have "\<exists>s'. train_loop demo_hparams demo_env 0 2 (initial_state demo_hparams demo_model) = Inr s'
     \<and> step_count s' = 1
     \<and> filter core (events s') = [Backward 0 True, Backward 1 False, OptimizerStep 0, ZeroGrad]
     \<and> (\<forall>p\<in>set (model s'). p_grad p = None)"
    by (simp add: h e i w a)
  then show ?thesis by blast
qed

lemma p_data_accumulate [simp]: "p_data (accumulate g p) = p_data p"
  by (simp add: accumulate_def)

lemma p_data_backward [simp]: "map p_data (backward g ps) = map p_data ps"
proof -
  have "map p_data (backward g ps) = map p_data (map snd (enumerate 0 ps))"
    unfolding backward_def map_map by (rule map_cong) (auto simp: accumulate_def)
  then show ?thesis by simp
qed

lemma p_data_zero_grad [simp]: "map p_data (zero_grad ps) = map p_data ps"
  by (simp add: zero_grad_def comp_def)

lemma p_data_adamw_zero [simp]: "p_data (adamw_param 0 wd p) = p_data p"
  by (simp add: adamw_param_def Let_def split: option.split)

lemma opt_steps_append [simp]: "opt_steps (xs @ ys) = opt_steps xs @ opt_steps ys"
  by (simp add: opt_steps_def)

lemma opt_steps_core: "opt_steps (filter core es) = opt_steps es"
  by (induction es) (auto simp: opt_steps_def core_def split: event.splits)

lemma opt_steps_acc_trace [simp]: "opt_steps (acc_trace ev i0 n) = []"
  by (induction n) (simp_all add: acc_trace_def opt_steps_def)

lemma train_iter_data:
  assumes "train_iter hp ev i s = Inr s'"
    and "is_accumulating hp i \<or> warm_lr hp s = 0"
  shows "map p_data (model s') = map p_data (model s)"
  using assms
  by (auto simp: train_iter_def warmup_def forward_backward_def optimizer_update_def
      instrument_def periodic_validate_def periodic_save_def emit_def Let_def
      validate_def save_adapter_checkpoint_def warm_lr_def comp_def and_then_def
      split: if_splits sum.splits)


lemma train_loop_data:
  assumes "train_loop hp ev i n s = Inr s'"
    and "\<forall>j<n. is_accumulating hp (i + int j)"
  shows "map p_data (model s') = map p_data (model s)"
  using assms
proof (induction n arbitrary: i s)
  case 0
  then show ?case by simp
next
  case (Suc n)
  from Suc.prems(1) obtain s1 where s1: "train_iter hp ev i s = Inr s1"
      "train_loop hp ev (i + 1) n s1 = Inr s'"
    by (cases "train_iter hp ev i s") simp_all
  have "is_accumulating hp i"
    using Suc.prems(2) by force
  then have "map p_data (model s1) = map p_data (model s)"
    using train_iter_data [OF s1(1)] by blast
  moreover have "\<forall>j<n. is_accumulating hp (i + 1 + int j)"
  proof (intro allI impI)
    fix j assume "j < n"
    then have "is_accumulating hp (i + int (Suc j))"
      using Suc.prems(2) by blast
    then show "is_accumulating hp (i + 1 + int j)"
      by (simp add: add.assoc)
  qed
  ultimately show ?case
    using Suc.IH [OF s1(2)] by simp
qed

lemma train_setup_ok:
  assumes "0 \<le> eval_iters hp"
  shows "\<exists>s1. train_setup hp ev s = Inr s1 \<and> step_count s1 = 0 \<and> model s1 = model s
           \<and> lr s1 = lr s"
  using assms by (simp add: train_setup_def validate_def Let_def emit_def)

lemma demo_hparams_simps:
  "gradient_accumulation_iters demo_hparams = 2" "warmup_iters demo_hparams = 8"
  "log_interval demo_hparams = 1" "eval_interval demo_hparams = 2"
  "save_interval demo_hparams = 1" "eval_iters demo_hparams = 1"
  "max_iters demo_hparams = 4" "learning_rate demo_hparams = 9 / 1000"
  by (simp_all add: demo_hparams_def demo_settings_def settings.extend_def)

subsection \<open>The first optimizer step\<close>

text \<open>
  Claim C10. A run of \<open>train\<close> with at least one full accumulation group and
  \<open>warmup_iters \<ge> 1\<close>: the step counter is \<open>0\<close> through the whole first group, the warmup
  sets the learning rate to \<open>learning_rate * 0 / warmup_iters = 0\<close> in each of its
  iterations, the group's single optimizer step runs at learning rate \<open>0\<close>, and the values
  of the model parameters after the group are those before training (AdamW at rate \<open>0\<close>
  moves no parameter). The rest of \<open>train\<close> continues from that state.
\<close>

theorem first_step_at_zero_rate:
  assumes G: "0 < gradient_accumulation_iters hp"
    and W: "1 \<le> warmup_iters hp" and L: "log_interval hp \<noteq> 0"
    and E: "eval_interval hp \<noteq> 0" and S: "save_interval hp \<noteq> 0"
    and V: "0 \<le> eval_iters hp"
    and X: "gradient_accumulation_iters hp \<le> max_iters hp"
  shows "\<exists>s1 s' es. train_setup hp ev s = Inr s1 \<and> step_count s1 = 0
    \<and> (\<forall>n. int n < gradient_accumulation_iters hp \<longrightarrow>
          (\<exists>sn. train_loop hp ev 0 n s1 = Inr sn \<and> step_count sn = 0
             \<and> (0 < n \<longrightarrow> lr sn = 0)))
    \<and> train_loop hp ev 0 (nat (gradient_accumulation_iters hp)) s1 = Inr s'
    \<and> events s' = events s1 @ es \<and> opt_steps es = [0]
    \<and> map p_data (model s') = map p_data (model s)
    \<and> train hp ev s
        = train_loop hp ev (gradient_accumulation_iters hp)
            (nat (max_iters hp) - nat (gradient_accumulation_iters hp)) s'"
proof -
  let ?G = "gradient_accumulation_iters hp"
  have W': "warmup_iters hp \<noteq> 0" using W by simp
  have M: "0 mod ?G = 0" by simp
  from train_setup_ok [OF V, of ev s]
  obtain s1 where s1: "train_setup hp ev s = Inr s1" "step_count s1 = 0" "model s1 = model s"
    by blast
  have w: "warm_lr hp s1 = 0"
    using s1(2) W by (simp add: warm_lr_def)
  have pre: "\<exists>sn. train_loop hp ev 0 n s1 = Inr sn \<and> step_count sn = 0 \<and> (0 < n \<longrightarrow> lr sn = 0)"
    if "int n < ?G" for n
    using train_loop_accumulating [OF G W' L M that, of ev s1] s1(2) w by auto
  from train_loop_group [OF G W' L E S V M, of ev s1]
  obtain s' es where s': "train_loop hp ev 0 (nat ?G) s1 = Inr s'"
      "events s' = events s1 @ es"
      "filter core es = acc_trace ev 0 (nat ?G - 1)
         @ [Backward (0 + ?G - 1) False, OptimizerStep (warm_lr hp s1)]
         @ (if xla ev then [MarkStep] else []) @ [ZeroGrad]"
    by blast
  have "opt_steps (filter core es) = [0]"
    unfolding s'(3) by (simp add: w) (simp add: opt_steps_def)
  then have o: "opt_steps es = [0]"
    by (simp add: opt_steps_core)
  have d: "map p_data (model s') = map p_data (model s)"
  proof -
    define n where "n = nat ?G - 1"
    have n: "Suc n = nat ?G" "int n < ?G"
      using G by (simp_all add: n_def)
    from train_loop_accumulating [OF G W' L M n(2), of ev s1]
    obtain sn where sn: "train_loop hp ev 0 n s1 = Inr sn" "step_count sn = step_count s1"
        "lr sn = (if n = 0 then lr s1 else warm_lr hp s1)"
      by blast
    have "\<forall>j<n. is_accumulating hp (0 + int j)"
      using G n(2) by (intro allI impI accumulating_in_group) simp_all
    with sn(1) have 1: "map p_data (model sn) = map p_data (model s1)"
      by (rule train_loop_data)
    have last: "train_iter hp ev (0 + int n) sn = Inr s'"
      using s'(1) sn(1) unfolding n(1) [symmetric]
      by (simp add: train_loop_snoc del: train_loop.simps)
    have "warm_lr hp sn = 0"
      using sn(2) s1(2) W by (simp add: warm_lr_def)
    then have "map p_data (model s') = map p_data (model sn)"
      using train_iter_data [OF last] by blast
    with 1 s1(3) show ?thesis by simp
  qed
  have "nat (max_iters hp) = nat ?G + (nat (max_iters hp) - nat ?G)"
    using X by simp
  then have "train_loop hp ev 0 (nat (max_iters hp)) s1
      = and_then (train_loop hp ev 0 (nat ?G) s1)
          (train_loop hp ev (0 + int (nat ?G)) (nat (max_iters hp) - nat ?G))"
    by (metis train_loop_add)
  then have t: "train hp ev s = train_loop hp ev ?G (nat (max_iters hp) - nat ?G) s'"
    using s1(1) s'(1) G by (simp add: train_def)
  show ?thesis
    using s1(1,2) pre s'(1,2) o d t by blast
qed


theorem first_step_at_zero_rate_witness:
  "\<exists>s1 s' es. train_setup demo_hparams demo_env (initial_state demo_hparams demo_model) = Inr s1
     \<and> train_loop demo_hparams demo_env 0 2 s1 = Inr s'
     \<and> events s' = events s1 @ es \<and> opt_steps es = [0]
     \<and> map p_data (model s') = [1, 0]"
proof -
  have m: "map p_data (model (initial_state demo_hparams demo_model)) = [1, 0]"
    by (simp add: initial_state_def demo_model_def)
  from first_step_at_zero_rate [of demo_hparams demo_env "initial_state demo_hparams demo_model"]
  show ?thesis
    by (simp add: demo_hparams_simps m) (elim exE conjE, intro exI conjI, assumption+)
qed

subsection \<open>Whole runs of the loop\<close>

lemma saved_paths_append [simp]: "saved_paths (xs @ ys) = saved_paths xs @ saved_paths ys"
  by (simp add: saved_paths_def)

lemma saved_paths_batches [simp]:
  "saved_paths (concat (map (\<lambda>k. [GetBatch, Forward a b]) ks)) = []"
  by (induction ks) (simp_all add: saved_paths_def)

lemma opt_steps_batches [simp]:
  "opt_steps (concat (map (\<lambda>k. [GetBatch, Forward a b]) ks)) = []"
  by (induction ks) (simp_all add: opt_steps_def)

lemma train_iter_total:
  assumes G: "0 < gradient_accumulation_iters hp"
    and W: "warmup_iters hp \<noteq> 0" and L: "log_interval hp \<noteq> 0"
    and E: "eval_interval hp \<noteq> 0" and S: "save_interval hp \<noteq> 0"
    and V: "0 \<le> eval_iters hp"
  shows "\<exists>s' es. train_iter hp ev i s = Inr s'
           \<and> step_count s' = (if is_accumulating hp i then step_count s else step_count s + 1)
           \<and> events s' = events s @ es
           \<and> saved_paths es =
                (if \<not> is_accumulating hp i \<and> (step_count s + 1) mod save_interval hp = 0
                 then [IterCkpt i] else [])"
  using assms
  by (auto simp: train_iter_def warmup_def forward_backward_def optimizer_update_def
      instrument_def periodic_validate_def periodic_save_def emit_def Let_def
      validate_def save_adapter_checkpoint_def saved_paths_def)


lemma div_step:
  fixes G :: int
  assumes "0 < G"
  shows "(n + 1) div G = n div G + (if (n + 1) mod G = 0 then 1 else 0)"
proof -
  let ?r = "n mod G + 1"
  have r: "0 < ?r" "?r \<le> G"
    using assms pos_mod_bound [of G n] pos_mod_sign [of G n] by linarith+
  have n: "n + 1 = ?r + G * (n div G)"
    by simp
  have d: "(n + 1) div G = n div G + ?r div G"
    unfolding n using assms by (subst div_mult_self2) simp_all
  have m: "(n + 1) mod G = ?r mod G"
    unfolding n by (subst mod_mult_self2) simp
  show ?thesis
  proof (cases "?r = G")
    case True
    with d m assms show ?thesis by simp
  next
    case False
    with r have "?r < G" by simp
    with r(1) have "?r div G = 0" "?r mod G = ?r" by simp_all
    with d m r(1) show ?thesis by simp
  qed
qed


lemma train_loop_run:
  assumes G: "0 < gradient_accumulation_iters hp"
    and W: "warmup_iters hp \<noteq> 0" and L: "log_interval hp \<noteq> 0"
    and E: "eval_interval hp \<noteq> 0" and S: "save_interval hp \<noteq> 0"
    and V: "0 \<le> eval_iters hp"
    and Z: "step_count s = 0"
  shows "\<exists>sn es. train_loop hp ev 0 n s = Inr sn
           \<and> step_count sn = int n div gradient_accumulation_iters hp
           \<and> events sn = events s @ es
           \<and> saved_paths es = map IterCkpt (save_iters hp n)"
proof (induction n)
  case 0
  show ?case using Z by (simp add: save_iters_def saved_paths_def)
next
  case (Suc n)
  let ?G = "gradient_accumulation_iters hp"
  from Suc obtain sn es where sn: "train_loop hp ev 0 n s = Inr sn"
      "step_count sn = int n div ?G" "events sn = events s @ es"
      "saved_paths es = map IterCkpt (save_iters hp n)"
    by blast
  from train_iter_total [OF G W L E S V, of ev "int n" sn]
  obtain s' es' where s': "train_iter hp ev (int n) sn = Inr s'"
      "step_count s' = (if is_accumulating hp (int n) then step_count sn else step_count sn + 1)"
      "events s' = events sn @ es'"
      "saved_paths es' =
         (if \<not> is_accumulating hp (int n) \<and> (step_count sn + 1) mod save_interval hp = 0
          then [IterCkpt (int n)] else [])"
    by blast
  have c: "(int n + 1) div ?G = int n div ?G + (if is_accumulating hp (int n) then 0 else 1)"
    using div_step [OF G, of "int n"] by (simp add: is_accumulating_def)
  have "train_loop hp ev 0 (Suc n) s = Inr s'"
    using sn(1) s'(1) by (simp add: train_loop_snoc del: train_loop.simps)
  moreover have "step_count s' = int (Suc n) div ?G"
    using s'(2) sn(2) c by (simp add: add.commute)
  moreover have "events s' = events s @ (es @ es')"
    using sn(3) s'(3) by simp
  moreover have "saved_paths (es @ es') = map IterCkpt (save_iters hp (Suc n))"
    using sn(2,4) s'(4) c by (simp add: save_iters_def)
  ultimately show ?case by blast
qed

lemma train_setup_events:
  assumes "0 \<le> eval_iters hp"
  shows "\<exists>s1 es. train_setup hp ev s = Inr s1 \<and> step_count s1 = 0 \<and> lr s1 = lr s
           \<and> events s1 = events s @ es \<and> saved_paths es = [] \<and> opt_steps es = []"
  using assms
  by (auto simp: train_setup_def validate_def Let_def emit_def saved_paths_def opt_steps_def)

subsection \<open>Checkpoints\<close>

text \<open>
  Claim C6. In a run of \<open>main\<close>, whatever \<open>max_iters\<close> is, the step counter after \<open>n\<close>
  iterations is \<open>n div gradient_accumulation_iters\<close>, and the checkpoints written are, in
  order: one named by its iteration index for exactly the iterations below \<open>max_iters\<close>
  that are not accumulating and leave a step count divisible by \<open>save_interval\<close>, and then
  the final checkpoint, written after the loop.
\<close>

theorem checkpoints_saved:
  assumes G: "0 < gradient_accumulation_iters hp"
    and W: "warmup_iters hp \<noteq> 0" and L: "log_interval hp \<noteq> 0"
    and E: "eval_interval hp \<noteq> 0" and S: "save_interval hp \<noteq> 0"
    and V: "0 \<le> eval_iters hp"
  shows "\<exists>s1 s2. train_setup hp ev (initial_state hp ps) = Inr s1
    \<and> (\<forall>n. \<exists>sn. train_loop hp ev 0 n s1 = Inr sn
           \<and> step_count sn = int n div gradient_accumulation_iters hp)
    \<and> main hp ev ps = Inr s2
    \<and> saved_paths (events s2)
        = map IterCkpt (save_iters hp (nat (max_iters hp))) @ [FinalCkpt]"
proof -
  from train_setup_events [OF V, of ev "initial_state hp ps"]
  obtain s1 es1 where s1: "train_setup hp ev (initial_state hp ps) = Inr s1"
      "step_count s1 = 0" "events s1 = events (initial_state hp ps) @ es1"
      "saved_paths es1 = []"
    by blast
  have run: "\<exists>sn es. train_loop hp ev 0 n s1 = Inr sn
      \<and> step_count sn = int n div gradient_accumulation_iters hp
      \<and> events sn = events s1 @ es \<and> saved_paths es = map IterCkpt (save_iters hp n)" for n
    by (rule train_loop_run [OF G W L E S V s1(2)])
  from run [of "nat (max_iters hp)"]
  obtain sn es where sn: "train_loop hp ev 0 (nat (max_iters hp)) s1 = Inr sn"
      "events sn = events s1 @ es"
      "saved_paths es = map IterCkpt (save_iters hp (nat (max_iters hp)))"
    by blast
  have "train hp ev (initial_state hp ps) = Inr sn"
    using s1(1) sn(1) by (simp add: train_def)
  then have m: "main hp ev ps = Inr (save_adapter_checkpoint ev FinalCkpt sn)"
    by (simp add: main_def)
  have "saved_paths (events (save_adapter_checkpoint ev FinalCkpt sn))
      = map IterCkpt (save_iters hp (nat (max_iters hp))) @ [FinalCkpt]"
    using sn(2,3) s1(3,4)
    by (simp add: save_adapter_checkpoint_def emit_def initial_state_def)
      (simp add: saved_paths_def)
  with s1(1) run m show ?thesis by blast
qed

theorem checkpoints_saved_witness:
  "\<exists>s2. main demo_hparams demo_env demo_model = Inr s2
     \<and> saved_paths (events s2) = [IterCkpt 1, IterCkpt 3, FinalCkpt]"
proof -
  have "save_iters demo_hparams 4 = [1, 3]"
    by (simp add: save_iters_def is_accumulating_def demo_hparams_simps upt_rec)
  with checkpoints_saved [of demo_hparams demo_env demo_model]
  show ?thesis
    by (simp add: demo_hparams_simps) (elim exE conjE, intro exI conjI, assumption+)
qed

subsection \<open>Learning-rate warmup\<close>




















lemma powi_pos [simp]: "0 < (2::real) powi k"
  by (simp add: power_int_def)



















subsection \<open>The hyperparameter block\<close>

lemma not_integer_64_3: "\<not> (\<exists>k::int. (64::real) / 3 = of_int k)"
proof
  assume "\<exists>k::int. (64::real) / 3 = of_int k"
  then obtain k :: int where "(64::real) / 3 = of_int k" ..
  then have "(of_int (3 * k) :: real) = of_int 64"
    by simp
  then have "3 * k = 64"
    by (simp only: of_int_eq_iff)
  then show False
    by presburger
qed

text \<open>
  Claim C3, as stated, fails: with \<open>micro_batch_size = 3\<close> on one device the quotient
  \<open>batch_size / micro_batch_size = 64 / 3\<close> is not an integer, and the module-level block
  still succeeds, with \<open>gradient_accumulation_iters = 21\<close>.
\<close>

theorem configure_counterexample:
  "\<not> (\<exists>k::int. (64::real) / 3 = of_int k)
   \<and> (\<exists>hp. configure (source_settings\<lparr>micro_batch_size := 3\<rparr>) = Inr hp
         \<and> batch_size hp = 64 \<and> micro_batch_size hp = 3
         \<and> gradient_accumulation_iters hp = 21)"
proof -
  have "\<lfloor>(64::real) / 3\<rfloor> = 21"
    by (simp add: floor_eq_iff)
  then show ?thesis
    using not_integer_64_3
    by (simp add: configure_def batch_size_of_def gradient_accumulation_iters_of_def
        source_settings_def settings.extend_def)
qed

text \<open>
  Claim C3, amended. \<open>gradient_accumulation_iters\<close> is the floor of
  \<open>batch_size / micro_batch_size\<close> and positive in every configuration that is constructed;
  construction succeeds exactly when \<open>devices\<close> and \<open>micro_batch_size\<close> are non-zero and
  \<open>batch_size / micro_batch_size \<ge> 1\<close>; when it raises, the script ends with that
  exception and \<open>main\<close> never starts.
\<close>

theorem configure_floor:
  "(\<forall>hp. configure st = Inr hp \<longrightarrow>
       batch_size hp = 64 / of_int (devices st)
     \<and> gradient_accumulation_iters hp = \<lfloor>batch_size hp / of_int (micro_batch_size st)\<rfloor>
     \<and> 0 < gradient_accumulation_iters hp)
   \<and> ((\<exists>hp. configure st = Inr hp) \<longleftrightarrow>
        devices st \<noteq> 0 \<and> micro_batch_size st \<noteq> 0
      \<and> 1 \<le> 64 / of_int (devices st) / (of_int (micro_batch_size st) :: real))
   \<and> (\<forall>e. configure st = Inl e \<longrightarrow> script st ev ps = Inl e)"
proof -
  have f: "0 < \<lfloor>x\<rfloor> \<longleftrightarrow> 1 \<le> x" for x :: real
    by linarith
  show ?thesis
    by (auto simp: configure_def batch_size_of_def gradient_accumulation_iters_of_def
        script_def Let_def f settings.extend_def split: if_splits)
qed

theorem configure_floor_witness:
  "\<exists>hp. configure source_settings = Inr hp \<and> batch_size hp = 64
     \<and> gradient_accumulation_iters hp = 16"
proof -
  have d: "devices source_settings = 1" "micro_batch_size source_settings = 4"
    by (simp_all add: source_settings_def)
  from configure_floor [of source_settings]
  have 1: "\<forall>hp. configure source_settings = Inr hp \<longrightarrow>
       batch_size hp = 64 / of_int (devices source_settings)
     \<and> gradient_accumulation_iters hp
         = \<lfloor>batch_size hp / of_int (micro_batch_size source_settings)\<rfloor>"
    and 2: "(\<exists>hp. configure source_settings = Inr hp) \<longleftrightarrow>
        devices source_settings \<noteq> 0 \<and> micro_batch_size source_settings \<noteq> 0
      \<and> 1 \<le> 64 / of_int (devices source_settings)
             / (of_int (micro_batch_size source_settings) :: real)"
    by blast+
  from 2 obtain hp where hp: "configure source_settings = Inr hp"
    by (auto simp: d)
  from 1 [rule_format, OF hp] have "batch_size hp = 64" "gradient_accumulation_iters hp = 16"
    by (simp_all add: d)
  with hp show ?thesis by blast
qed

subsection \<open>Validation\<close>

lemma forwards_append [simp]: "forwards (xs @ ys) = forwards xs @ forwards ys"
  by (simp add: forwards_def)

lemma forwards_batches:
  "forwards (concat (map (\<lambda>k. [GetBatch, Forward a b]) ks)) = replicate (length ks) (a, b)"
  by (induction ks) (simp_all add: forwards_def)

text \<open>
  Claim C8. A call of \<open>validate\<close> with \<open>eval_iters > 0\<close> makes exactly \<open>eval_iters\<close> forward
  passes, each with the model in evaluation mode and gradient tracking off, and no backward
  pass, optimizer step or gradient reset; it returns the arithmetic mean of the
  \<open>eval_iters\<close> batch losses; on return the model is in training mode, the gradient
  switch is as before, and the parameters with their accumulated gradients, the optimizer
  state and the learning rate are those of the call.
\<close>

theorem validate_frame:
  assumes "0 < eval_iters hp"
  shows "\<exists>s' es. validate hp ev s
        = Inr (Fin (sum_list (map (vloss ev (map p_data (model s))) [0..<nat (eval_iters hp)])
                     / of_int (eval_iters hp)), s')
     \<and> events s' = events s @ es
     \<and> forwards es = replicate (nat (eval_iters hp)) (False, False)
     \<and> filter core es = []
     \<and> training s' \<and> grad_enabled s' = grad_enabled s
     \<and> model s' = model s \<and> lr s' = lr s \<and> step_count s' = step_count s"
proof -
  let ?ks = "[0..<nat (eval_iters hp)]"
  let ?es = "concat (map (\<lambda>k. [GetBatch, Forward False False]) ?ks)
               @ [Generate (prompt_len ev + 100) (8 / 10)]"
  have "validate hp ev s
      = Inr (mean (map (vloss ev (map p_data (model s))) ?ks),
             s\<lparr>training := True, events := events s @ ?es\<rparr>)"
    using assms by (simp add: validate_def Let_def emit_def)
  moreover have "mean (map (vloss ev (map p_data (model s))) ?ks)
      = Fin (sum_list (map (vloss ev (map p_data (model s))) ?ks) / of_int (eval_iters hp))"
    using assms by (simp add: mean_def)
  moreover have "forwards ?es = replicate (nat (eval_iters hp)) (False, False)"
    by (simp add: forwards_batches) (simp add: forwards_def)
  moreover have "filter core ?es = []"
    by (simp add: core_def)
  ultimately show ?thesis
    by (intro exI [of _ "s\<lparr>training := True, events := events s @ ?es\<rparr>"] exI [of _ ?es])
      simp
qed

theorem validate_frame_witness:
  "\<exists>s'. validate demo_hparams demo_env (initial_state demo_hparams demo_model) = Inr (Fin 1, s')
     \<and> forwards (events s') = [(False, False)]
     \<and> training s' \<and> model s' = model (initial_state demo_hparams demo_model)
     \<and> lr s' = 9 / 1000"
proof -
  have v: "vloss demo_env = (\<lambda>ps k. 1)"
    by (simp add: demo_env_def)
  have i: "events (initial_state demo_hparams demo_model) = []"
    "lr (initial_state demo_hparams demo_model) = 9 / 1000"
    by (simp_all add: initial_state_def demo_hparams_simps)
  from validate_frame [of demo_hparams demo_env "initial_state demo_hparams demo_model"]
  show ?thesis
    by (simp add: demo_hparams_simps v i) (elim exE conjE, intro exI conjI, assumption+)
qed

subsection \<open>Adapter checkpoints\<close>

text \<open>
  Claim C7. \<open>save_adapter_checkpoint\<close> writes one artifact; it holds the entries of the
  model's state dict for which \<open>adapter_filter\<close> is true, in order, and so its set of
  parameter names is exactly the set of names of the model's parameters that the filter
  accepts.
\<close>

theorem adapter_checkpoint_contents:
  "\<exists>art. save_adapter_checkpoint ev file_path s = s\<lparr>events := events s @ [Saved file_path art]\<rparr>
     \<and> art = map (\<lambda>p. (p_name p, p_data p))
               (filter (\<lambda>p. adapter_filter ev (p_name p) (p_data p)) (model s))
     \<and> fst ` set art
         = {p_name p |p. p \<in> set (model s) \<and> adapter_filter ev (p_name p) (p_data p)}"
  by (auto simp: save_adapter_checkpoint_def emit_def fabric_save_def state_dict_def
      filter_map comp_def case_prod_unfold image_iff)

theorem adapter_checkpoint_contents_witness:
  "events (save_adapter_checkpoint demo_env FinalCkpt (initial_state demo_hparams demo_model))
     = [Saved FinalCkpt [(''gating_factor'', 0)]]"
proof -
  from adapter_checkpoint_contents [of demo_env FinalCkpt "initial_state demo_hparams demo_model"]
  obtain art where
    "save_adapter_checkpoint demo_env FinalCkpt (initial_state demo_hparams demo_model)
       = (initial_state demo_hparams demo_model)
           \<lparr>events := events (initial_state demo_hparams demo_model) @ [Saved FinalCkpt art]\<rparr>"
    "art = map (\<lambda>p. (p_name p, p_data p))
       (filter (\<lambda>p. adapter_filter demo_env (p_name p) (p_data p))
          (model (initial_state demo_hparams demo_model)))"
    by blast
  then show ?thesis
    by (simp add: initial_state_def demo_env_def demo_model_def)
qed

subsection \<open>Batches\<close>

lemma collect_map_Inr:
  "(\<forall>x \<in> set xs. f x = Inr (g x)) \<Longrightarrow> collect (map f xs) = Inr (map g xs)"
  by (induction xs) simp_all

lemma collect_map_Inl:
  "(\<forall>x \<in> set xs. f x = Inr (g x) \<or> f x = Inl e) \<Longrightarrow> (\<exists>x \<in> set xs. f x = Inl e)
     \<Longrightarrow> collect (map f xs) = Inl e"
proof (induction xs)
  case Nil
  then show ?case by simp
next
  case (Cons x xs)
  show ?case
  proof (cases "f x")
    case (Inl e')
    with Cons.prems(1) show ?thesis by auto
  next
    case (Inr a)
    with Cons.prems have "\<exists>x \<in> set xs. f x = Inl e" by auto
    with Cons have "collect (map f xs) = Inl e" by simp
    with Inr show ?thesis by simp
  qed
qed

lemma pad_right_cases:
  "pad_right m x p = (if int (length x) \<le> m then Inr (padded m p x) else Inl RuntimeError)"
  by (simp add: pad_right_def padded_def Let_def)

lemma length_padded: "int (length x) \<le> m \<Longrightarrow> length (padded m p x) = nat m"
  by (simp add: padded_def)

lemma stack_padded:
  assumes "xs \<noteq> []" "\<forall>x \<in> set xs. int (length x) \<le> m"
  shows "stack (map (padded m p) xs) = Inr (map (padded m p) xs)"
proof -
  have "\<forall>t \<in> set (map (padded m p) xs). length t = nat m"
    using assms(2) by (auto simp: length_padded)
  moreover from this assms(1) have "length (hd (map (padded m p) xs)) = nat m"
    by (cases xs) simp_all
  ultimately show ?thesis
    using assms(1) by (simp add: stack_def list_all_iff)
qed

lemma padded_rows:
  assumes "xs \<noteq> []"
  shows "and_then (collect (map (\<lambda>x. pad_right m x p) xs)) stack
     = (if \<forall>x \<in> set xs. int (length x) \<le> m then Inr (map (padded m p) xs)
        else Inl RuntimeError)"
proof (cases "\<forall>x \<in> set xs. int (length x) \<le> m")
  case True
  then have "collect (map (\<lambda>x. pad_right m x p) xs) = Inr (map (padded m p) xs)"
    by (intro collect_map_Inr) (simp add: pad_right_cases)
  with True assms show ?thesis
    by (simp add: stack_padded)
next
  case False
  have "collect (map (\<lambda>x. pad_right m x p) xs) = Inl RuntimeError"
    using False by (intro collect_map_Inl [where g = "padded m p"]) (auto simp: pad_right_cases)
  with False show ?thesis by simp
qed


lemma and_then_assoc: "and_then (and_then r f) g = and_then r (\<lambda>a. and_then (f a) g)"
  by (cases r) simp_all

lemma get_batch_eq:
  assumes I: "ix \<noteq> []" and D: "\<forall>i \<in> set ix. i < length data"
    and m: "m = pad_len dev data msl ix"
  shows "get_batch dev data msl ix =
     (if \<forall>i \<in> set ix. int (length (input_ids (data ! i))) \<le> m
           \<and> int (length (labels (data ! i))) \<le> m
      then Inr (\<lparr>rows = map (\<lambda>i. padded m 0 (input_ids (data ! i))) ix, on_device = dev\<rparr>,
                \<lparr>rows = map (\<lambda>i. padded m (- 1) (labels (data ! i))) ix, on_device = dev\<rparr>)
      else Inl RuntimeError)"
proof -
  let ?sel = "map (\<lambda>i. data ! i) ix"
  let ?xs = "map input_ids ?sel" and ?ys = "map labels ?sel"
  have ne: "data \<noteq> []" "?xs \<noteq> []" "?ys \<noteq> []"
    using I D by (cases ix; force)+
  have sel: "collect (map (\<lambda>i. if i < length data then Inr (data ! i) else Inl IndexError) ix)
      = Inr ?sel"
    using D by (intro collect_map_Inr) simp
  have ml: "max_len_of dev ?xs msl = Inr m"
    using ne(2) by (simp add: max_len_of_def m pad_len_def comp_def)
  have xs: "and_then (collect (map (\<lambda>x. pad_right m x 0) ?xs)) stack
      = (if \<forall>x \<in> set ?xs. int (length x) \<le> m then Inr (map (padded m 0) ?xs)
         else Inl RuntimeError)"
    by (rule padded_rows [OF ne(2)])
  have ys: "and_then (collect (map (\<lambda>x. pad_right m x (- 1)) ?ys)) stack
      = (if \<forall>x \<in> set ?ys. int (length x) \<le> m then Inr (map (padded m (- 1)) ?ys)
         else Inl RuntimeError)"
    by (rule padded_rows [OF ne(3)])
  have "get_batch dev data msl ix =
      and_then (and_then (collect (map (\<lambda>x. pad_right m x 0) ?xs)) stack) (\<lambda>x.
      and_then (and_then (collect (map (\<lambda>x. pad_right m x (- 1)) ?ys)) stack) (\<lambda>y.
        Inr (\<lparr>rows = x, on_device = dev\<rparr>, \<lparr>rows = y, on_device = dev\<rparr>)))"
    using ne(1) unfolding get_batch_def
    by (simp only: sel ml and_then_Inr and_then_assoc if_False)
  also have "\<dots> =
     (if \<forall>i \<in> set ix. int (length (input_ids (data ! i))) \<le> m
           \<and> int (length (labels (data ! i))) \<le> m
      then Inr (\<lparr>rows = map (\<lambda>i. padded m 0 (input_ids (data ! i))) ix, on_device = dev\<rparr>,
                \<lparr>rows = map (\<lambda>i. padded m (- 1) (labels (data ! i))) ix, on_device = dev\<rparr>)
      else Inl RuntimeError)"
    unfolding xs ys by (auto simp: comp_def)
  finally show ?thesis .
qed

lemma inputs_below_pad_len:
  assumes "dev \<noteq> XLA" "i \<in> set ix"
  shows "int (length (input_ids (data ! i))) \<le> pad_len dev data msl ix"
  using assms by (simp add: pad_len_def)

lemma chance_distinct:
  assumes "distinct xs" "x \<in> set xs"
  shows "chance xs (\<lambda>y. y = x) = 1 / of_nat (length xs)"
proof -
  have "length (filter (\<lambda>y. y = x) xs) = 1"
    using assms by (induction xs) (auto simp: filter_empty_conv)
  then show ?thesis
    by (simp add: chance_def)
qed

lemma randint_outcomes:
  assumes "0 < mbs" "data \<noteq> []"
  shows "\<exists>draws. randint (int (length data)) mbs = Inr draws
     \<and> distinct draws \<and> length draws = length data ^ nat mbs
     \<and> set draws = {ix. int (length ix) = mbs \<and> (\<forall>i \<in> set ix. i < length data)}"
proof -
  let ?d = "List.n_lists (nat mbs) [0..<length data]"
  have "randint (int (length data)) mbs = Inr ?d"
    using assms by (simp add: randint_def)
  moreover have "distinct ?d"
    by (simp add: distinct_n_lists)
  moreover have "length ?d = length data ^ nat mbs"
    by (simp add: length_n_lists)
  moreover have "set ?d = {ix. int (length ix) = mbs \<and> (\<forall>i \<in> set ix. i < length data)}"
    using assms(1) by (auto simp: set_n_lists)
  ultimately show ?thesis by blast
qed

lemma if_holds: "(if P then Q else R) \<Longrightarrow> P \<Longrightarrow> Q"
  by simp

text \<open>
  Claim C5, as stated, fails: on a CPU, for the one-example dataset whose labels (two
  tokens) are longer than its input (one token) and a micro-batch of one example, the only
  outcome of \<open>get_batch\<close> is an exception, not a pair of tensors.
\<close>

theorem get_batch_counterexample:
  "long_labels \<noteq> [] \<and> get_batch_outcomes CPU long_labels 5 1 = Inr [Inl RuntimeError]"
  by (simp add: long_labels_def get_batch_outcomes_def randint_def get_batch_def
      max_len_of_def pad_right_def stack_def)


text \<open>
  Claim C5, amended. For a non-empty dataset and \<open>micro_batch_size > 0\<close>, \<open>get_batch\<close>
  samples \<open>micro_batch_size\<close> example indices uniformly and with replacement: the equally
  likely draws are all the sequences of \<open>micro_batch_size\<close> indices into the dataset,
  each once. For a draw in which no selected labels sequence is longer than the pad
  length, and on XLA no selected input is longer than \<open>max_seq_length\<close>, it returns two
  tensors on the device of \<open>fabric\<close>, whose rows are the selected \<open>input_ids\<close> padded on the
  right with \<open>0\<close> and the selected \<open>labels\<close> padded on the right with \<open>-1\<close>, both of shape
  \<open>micro_batch_size\<close> by pad length, where the pad length is the longest selected input,
  or \<open>max_seq_length\<close> on XLA. For every other draw \<open>pad_right\<close> raises and no tensor is
  returned. The dataset is an argument that the function only reads.
\<close>

theorem get_batch_shapes:
  assumes M: "0 < mbs" and N: "data \<noteq> []"
  shows "\<exists>draws. randint (int (length data)) mbs = Inr draws
     \<and> distinct draws \<and> length draws = length data ^ nat mbs
     \<and> set draws = {ix. int (length ix) = mbs \<and> (\<forall>i \<in> set ix. i < length data)}
     \<and> (\<forall>ix \<in> set draws.
           chance draws (\<lambda>d. d = ix) = 1 / of_nat (length data) ^ nat mbs)
     \<and> get_batch_outcomes dev data msl mbs = Inr (map (get_batch dev data msl) draws)
     \<and> (\<forall>ix \<in> set draws.
          if (\<forall>i \<in> set ix. int (length (labels (data ! i))) \<le> pad_len dev data msl ix)
             \<and> (dev = XLA \<longrightarrow> (\<forall>i \<in> set ix. int (length (input_ids (data ! i))) \<le> msl))
          then (\<exists>x y. get_batch dev data msl ix = Inr (x, y)
                 \<and> on_device x = dev \<and> on_device y = dev
                 \<and> rows x = map (\<lambda>i. padded (pad_len dev data msl ix) 0
                                       (input_ids (data ! i))) ix
                 \<and> rows y = map (\<lambda>i. padded (pad_len dev data msl ix) (- 1)
                                       (labels (data ! i))) ix
                 \<and> length (rows x) = nat mbs \<and> length (rows y) = nat mbs
                 \<and> (\<forall>r \<in> set (rows x) \<union> set (rows y).
                       length r = nat (pad_len dev data msl ix)))
          else get_batch dev data msl ix = Inl RuntimeError)"
proof -
  from randint_outcomes [OF M N]
  obtain draws where d: "randint (int (length data)) mbs = Inr draws" "distinct draws"
      "length draws = length data ^ nat mbs"
      "set draws = {ix. int (length ix) = mbs \<and> (\<forall>i \<in> set ix. i < length data)}"
    by blast
  have o: "get_batch_outcomes dev data msl mbs = Inr (map (get_batch dev data msl) draws)"
    by (simp add: get_batch_outcomes_def d(1))
  have c: "if (\<forall>i \<in> set ix. int (length (labels (data ! i))) \<le> pad_len dev data msl ix)
             \<and> (dev = XLA \<longrightarrow> (\<forall>i \<in> set ix. int (length (input_ids (data ! i))) \<le> msl))
          then (\<exists>x y. get_batch dev data msl ix = Inr (x, y)
                 \<and> on_device x = dev \<and> on_device y = dev
                 \<and> rows x = map (\<lambda>i. padded (pad_len dev data msl ix) 0
                                       (input_ids (data ! i))) ix
                 \<and> rows y = map (\<lambda>i. padded (pad_len dev data msl ix) (- 1)
                                       (labels (data ! i))) ix
                 \<and> length (rows x) = nat mbs \<and> length (rows y) = nat mbs
                 \<and> (\<forall>r \<in> set (rows x) \<union> set (rows y).
                       length r = nat (pad_len dev data msl ix)))
          else get_batch dev data msl ix = Inl RuntimeError"
    if "ix \<in> set draws" for ix
  proof -
    let ?m = "pad_len dev data msl ix"
    from that d(4) M have I: "ix \<noteq> []" and D: "\<forall>i \<in> set ix. i < length data"
      and L: "length ix = nat mbs"
      by auto
    note eq = get_batch_eq [OF I D refl, of dev msl]
    have X: "(\<forall>i \<in> set ix. int (length (input_ids (data ! i))) \<le> ?m)
        \<longleftrightarrow> (dev = XLA \<longrightarrow> (\<forall>i \<in> set ix. int (length (input_ids (data ! i))) \<le> msl))"
    proof (cases "dev = XLA")
      case True
      then show ?thesis by (simp add: pad_len_def)
    next
      case False
      then show ?thesis by (simp add: inputs_below_pad_len)
    qed
    define C where "C \<longleftrightarrow> (\<forall>i \<in> set ix. int (length (labels (data ! i))) \<le> ?m)
        \<and> (dev = XLA \<longrightarrow> (\<forall>i \<in> set ix. int (length (input_ids (data ! i))) \<le> msl))"
    define R where "R \<longleftrightarrow> (\<exists>x y. get_batch dev data msl ix = Inr (x, y)
          \<and> on_device x = dev \<and> on_device y = dev
          \<and> rows x = map (\<lambda>i. padded ?m 0 (input_ids (data ! i))) ix
          \<and> rows y = map (\<lambda>i. padded ?m (- 1) (labels (data ! i))) ix
          \<and> length (rows x) = nat mbs \<and> length (rows y) = nat mbs
          \<and> (\<forall>r \<in> set (rows x) \<union> set (rows y). length r = nat ?m))"
    have "if C then R else get_batch dev data msl ix = Inl RuntimeError"
    proof (cases C)
      case True
      with X have ok: "\<forall>i \<in> set ix. int (length (input_ids (data ! i))) \<le> ?m
          \<and> int (length (labels (data ! i))) \<le> ?m"
        unfolding C_def by blast
      then have "get_batch dev data msl ix
          = Inr (\<lparr>rows = map (\<lambda>i. padded ?m 0 (input_ids (data ! i))) ix, on_device = dev\<rparr>,
                 \<lparr>rows = map (\<lambda>i. padded ?m (- 1) (labels (data ! i))) ix, on_device = dev\<rparr>)"
        unfolding eq by simp
      then have R
        unfolding R_def using L ok by (auto simp: length_padded)
      with True show ?thesis by simp
    next
      case False
      with X have "\<not> (\<forall>i \<in> set ix. int (length (input_ids (data ! i))) \<le> ?m
          \<and> int (length (labels (data ! i))) \<le> ?m)"
        unfolding C_def by blast
      then have "get_batch dev data msl ix = Inl RuntimeError"
        unfolding eq by (simp only: if_False)
      with False show ?thesis by simp
    qed
    then show ?thesis
      unfolding C_def R_def .
  qed
  have u: "\<forall>ix \<in> set draws. chance draws (\<lambda>d. d = ix) = 1 / of_nat (length data) ^ nat mbs"
    using chance_distinct [OF d(2)] d(3) by simp
  from d o c u show ?thesis
    by blast
qed


theorem get_batch_shapes_witness:
  "\<exists>draws. randint 2 3 = Inr draws \<and> length draws = 8 \<and> [0, 1, 1] \<in> set draws
     \<and> chance draws (\<lambda>d. d = [0, 1, 1]) = 1 / 8
     \<and> get_batch CPU two_examples 5 [0, 1, 1]
         = Inr (\<lparr>rows = [[1, 2, 3], [1, 0, 0], [1, 0, 0]], on_device = CPU\<rparr>,
                \<lparr>rows = [[1, 2, - 1], [7, - 1, - 1], [7, - 1, - 1]], on_device = CPU\<rparr>)"
proof -
  have l: "length two_examples = 2" "two_examples \<noteq> []"
    by (simp_all add: two_examples_def)
  have p: "pad_len CPU two_examples 5 [0, 1, 1] = 3"
    by (simp add: pad_len_def two_examples_def)
  from get_batch_shapes [of 3 two_examples CPU 5]
  obtain draws where d: "randint 2 3 = Inr draws" "length draws = 2 ^ 3"
      "set draws = {ix. int (length ix) = 3 \<and> (\<forall>i \<in> set ix. i < 2)}"
    and u: "\<forall>ix \<in> set draws. chance draws (\<lambda>d. d = ix) = 1 / of_nat 2 ^ nat 3"
    and c: "\<forall>ix \<in> set draws.
          if (\<forall>i \<in> set ix. int (length (labels (two_examples ! i)))
                \<le> pad_len CPU two_examples 5 ix)
             \<and> (CPU = XLA \<longrightarrow> (\<forall>i \<in> set ix. int (length (input_ids (two_examples ! i))) \<le> 5))
          then (\<exists>x y. get_batch CPU two_examples 5 ix = Inr (x, y)
                 \<and> on_device x = CPU \<and> on_device y = CPU
                 \<and> rows x = map (\<lambda>i. padded (pad_len CPU two_examples 5 ix) 0
                                       (input_ids (two_examples ! i))) ix
                 \<and> rows y = map (\<lambda>i. padded (pad_len CPU two_examples 5 ix) (- 1)
                                       (labels (two_examples ! i))) ix
                 \<and> length (rows x) = nat 3 \<and> length (rows y) = nat 3
                 \<and> (\<forall>r \<in> set (rows x) \<union> set (rows y).
                       length r = nat (pad_len CPU two_examples 5 ix)))
          else get_batch CPU two_examples 5 ix = Inl RuntimeError"
    unfolding l(1) using l(2) by auto
  have m: "[0, 1, 1] \<in> set draws"
    unfolding d(3) by simp
  have y: "(\<forall>i \<in> set [0, 1, 1]. int (length (labels (two_examples ! i)))
        \<le> pad_len CPU two_examples 5 [0, 1, 1])
      \<and> (CPU = XLA \<longrightarrow> (\<forall>i \<in> set [0, 1, 1]. int (length (input_ids (two_examples ! i))) \<le> 5))"
    unfolding p by (simp add: two_examples_def)
  from if_holds [OF c [rule_format, OF m] y]
  obtain x y where xy: "get_batch CPU two_examples 5 [0, 1, 1] = Inr (x, y)"
      "on_device x = CPU" "on_device y = CPU"
      "rows x = map (\<lambda>i. padded 3 0 (input_ids (two_examples ! i))) [0, 1, 1]"
      "rows y = map (\<lambda>i. padded 3 (- 1) (labels (two_examples ! i))) [0, 1, 1]"
    unfolding p by blast
  have "x = \<lparr>rows = [[1, 2, 3], [1, 0, 0], [1, 0, 0]], on_device = CPU\<rparr>"
    using xy(2,4) by (cases x) (simp add: padded_def two_examples_def numeral_2_eq_2)
  moreover have "y = \<lparr>rows = [[1, 2, - 1], [7, - 1, - 1], [7, - 1, - 1]], on_device = CPU\<rparr>"
    using xy(3,5) by (cases y) (simp add: padded_def two_examples_def numeral_2_eq_2)
  moreover have "chance draws (\<lambda>d. d = [0, 1, 1]) = 1 / 8"
    using u [rule_format, OF m] by simp
  ultimately show ?thesis
    using xy(1) d(1,2) m by simp
qed

text \<open>
  Claim C9, as stated, fails on an XLA device: there the pad length is \<open>max_seq_length\<close>,
  not the longest input, and a batch whose labels (two tokens) are longer than every input
  (one token) is padded to two tensors of equal shape when \<open>max_seq_length = 5\<close>.
\<close>

theorem padding_counterexample:
  "length (labels (long_labels ! 0)) = 2 \<and> length (input_ids (long_labels ! 0)) = 1
   \<and> get_batch XLA long_labels 5 [0]
       = Inr (\<lparr>rows = [[1, 0, 0, 0, 0]], on_device = XLA\<rparr>,
              \<lparr>rows = [[1, 2, - 1, - 1, - 1]], on_device = XLA\<rparr>)"
  by (simp add: long_labels_def get_batch_def max_len_of_def pad_right_def stack_def
      numeral_eq_Suc)

text \<open>
  Claim C9, amended. The pad length never depends on the labels: it is the longest
  selected \<open>input_ids\<close> outside XLA and \<open>max_seq_length\<close> on XLA. Outside XLA, \<open>get_batch\<close>
  returns tensors exactly when no selected labels sequence is longer than the longest
  selected input, and a batch with a labels sequence longer than every selected input
  makes it raise; on XLA it returns tensors exactly when no selected input or labels
  sequence is longer than \<open>max_seq_length\<close>. Whenever it returns, both tensors have the
  same number of rows, all of the pad length.
\<close>

theorem padding_precondition:
  assumes I: "ix \<noteq> []" and D: "\<forall>i \<in> set ix. i < length data"
  shows "(pad_len dev data msl ix =
           (if dev = XLA then msl
            else Max (set (map (\<lambda>i. int (length (input_ids (data ! i)))) ix))))
    \<and> (dev \<noteq> XLA \<longrightarrow>
          ((\<exists>x y. get_batch dev data msl ix = Inr (x, y)) \<longleftrightarrow>
           (\<forall>i \<in> set ix. int (length (labels (data ! i))) \<le> pad_len dev data msl ix)))
    \<and> (dev = XLA \<longrightarrow>
          ((\<exists>x y. get_batch dev data msl ix = Inr (x, y)) \<longleftrightarrow>
           (\<forall>i \<in> set ix. int (length (input_ids (data ! i))) \<le> msl
                          \<and> int (length (labels (data ! i))) \<le> msl)))
    \<and> (dev \<noteq> XLA \<and> (\<exists>i \<in> set ix. \<forall>j \<in> set ix.
            length (input_ids (data ! j)) < length (labels (data ! i)))
         \<longrightarrow> get_batch dev data msl ix = Inl RuntimeError)
    \<and> (\<forall>x y. get_batch dev data msl ix = Inr (x, y) \<longrightarrow>
          length (rows x) = length (rows y)
        \<and> (\<forall>r \<in> set (rows x) \<union> set (rows y). length r = nat (pad_len dev data msl ix)))"
proof -
  let ?m = "pad_len dev data msl ix"
  note eq = get_batch_eq [OF I D refl, of dev msl]
  have 1: "?m = (if dev = XLA then msl
      else Max (set (map (\<lambda>i. int (length (input_ids (data ! i)))) ix)))"
    by (simp add: pad_len_def)
  have 2: "(\<exists>x y. get_batch dev data msl ix = Inr (x, y)) \<longleftrightarrow>
      (\<forall>i \<in> set ix. int (length (labels (data ! i))) \<le> ?m)" if "dev \<noteq> XLA"
    unfolding eq using inputs_below_pad_len [OF that, of _ ix data msl] by auto
  have 3: "(\<exists>x y. get_batch dev data msl ix = Inr (x, y)) \<longleftrightarrow>
      (\<forall>i \<in> set ix. int (length (input_ids (data ! i))) \<le> msl
                     \<and> int (length (labels (data ! i))) \<le> msl)" if "dev = XLA"
    unfolding eq using that by (auto simp: pad_len_def)
  have 4: "get_batch dev data msl ix = Inl RuntimeError"
    if "dev \<noteq> XLA \<and> (\<exists>i \<in> set ix. \<forall>j \<in> set ix.
          length (input_ids (data ! j)) < length (labels (data ! i)))"
  proof -
    from that obtain i where i: "i \<in> set ix"
        "\<forall>j \<in> set ix. length (input_ids (data ! j)) < length (labels (data ! i))"
      by blast
    have "Max (set (map (\<lambda>i. int (length (input_ids (data ! i)))) ix))
        \<in> set (map (\<lambda>i. int (length (input_ids (data ! i)))) ix)"
      using I by (intro Max_in) simp_all
    then have "?m \<in> set (map (\<lambda>i. int (length (input_ids (data ! i)))) ix)"
      using that by (simp add: pad_len_def)
    then obtain j where "j \<in> set ix" "?m = int (length (input_ids (data ! j)))"
      by auto
    with i(2) have "\<not> int (length (labels (data ! i))) \<le> ?m"
      by auto
    with i(1) show ?thesis
      unfolding eq by auto
  qed
  have 5: "length (rows x) = length (rows y)
      \<and> (\<forall>r \<in> set (rows x) \<union> set (rows y). length r = nat ?m)"
    if "get_batch dev data msl ix = Inr (x, y)" for x y
    using that unfolding eq by (auto simp: length_padded split: if_splits)
  from 1 2 3 4 5 show ?thesis
    by blast
qed


theorem padding_precondition_witness:
  "pad_len CPU long_labels 7 [0] = 1 \<and> get_batch CPU long_labels 7 [0] = Inl RuntimeError"
proof -
  have h: "[0::nat] \<noteq> []" "\<forall>i \<in> set [0::nat]. i < length long_labels"
    by (simp_all add: long_labels_def)
  have l: "CPU \<noteq> XLA \<and> (\<exists>i \<in> set [0::nat]. \<forall>j \<in> set [0::nat].
      length (input_ids (long_labels ! j)) < length (labels (long_labels ! i)))"
    by (simp add: long_labels_def)
  from padding_precondition [OF h, of CPU 7]
  have "pad_len CPU long_labels 7 [0]
        = (if CPU = XLA then 7
           else Max (set (map (\<lambda>i. int (length (input_ids (long_labels ! i)))) [0])))"
    and "CPU \<noteq> XLA \<and> (\<exists>i \<in> set [0::nat]. \<forall>j \<in> set [0::nat].
          length (input_ids (long_labels ! j)) < length (labels (long_labels ! i)))
        \<longrightarrow> get_batch CPU long_labels 7 [0] = Inl RuntimeError"
    by blast+
  with l show ?thesis
    by (simp add: long_labels_def)
qed

subsection \<open>The loss\<close>

lemma zip_concat:
  "list_all2 (\<lambda>xs ys. length xs = length ys) xss yss
     \<Longrightarrow> zip (concat xss) (concat yss) = concat (map2 zip xss yss)"
  by (induction xss yss rule: list_all2_induct) simp_all

lemma butlast_nth_map: "butlast xs = map (\<lambda>t. xs ! t) [0..<length xs - 1]"
  by (rule nth_equalityI) (simp_all add: nth_butlast)

lemma tl_nth_map: "tl ys = map (\<lambda>t. ys ! (t + 1)) [0..<length ys - 1]"
  by (rule nth_equalityI) (simp_all add: nth_tl)

lemma shifted_pairs:
  assumes "length logits = B" "length targets = B"
    "\<forall>b < B. length (logits ! b) = S \<and> length (targets ! b) = S"
  shows "zip (concat (map butlast logits)) (concat (map tl targets))
     = map (\<lambda>(b, t). (logits ! b ! t, targets ! b ! (t + 1))) (List.product [0..<B] [0..<S - 1])"
proof -
  have "list_all2 (\<lambda>xs ys. length xs = length ys) (map butlast logits) (map tl targets)"
    using assms by (simp add: list_all2_conv_all_nth)
  then have "zip (concat (map butlast logits)) (concat (map tl targets))
      = concat (map2 zip (map butlast logits) (map tl targets))"
    by (rule zip_concat)
  also have "map2 zip (map butlast logits) (map tl targets)
      = map (\<lambda>b. map (\<lambda>t. (logits ! b ! t, targets ! b ! (t + 1))) [0..<S - 1]) [0..<B]"
  proof (rule nth_equalityI)
    show "length (map2 zip (map butlast logits) (map tl targets))
        = length (map (\<lambda>b. map (\<lambda>t. (logits ! b ! t, targets ! b ! (t + 1))) [0..<S - 1]) [0..<B])"
      using assms by simp
  next
    fix b assume "b < length (map2 zip (map butlast logits) (map tl targets))"
    then have b: "b < B" using assms by simp
    then have "map2 zip (map butlast logits) (map tl targets) ! b
        = zip (butlast (logits ! b)) (tl (targets ! b))"
      using assms by simp
    also have "\<dots> = zip (map (\<lambda>t. logits ! b ! t) [0..<S - 1])
        (map (\<lambda>t. targets ! b ! (t + 1)) [0..<S - 1])"
      using assms(3) b by (subst butlast_nth_map, subst tl_nth_map) simp
    also have "\<dots> = map (\<lambda>t. (logits ! b ! t, targets ! b ! (t + 1))) [0..<S - 1]"
      by (simp add: zip_map_map zip_same_conv_map)
    finally show "map2 zip (map butlast logits) (map tl targets) ! b
        = map (\<lambda>b. map (\<lambda>t. (logits ! b ! t, targets ! b ! (t + 1))) [0..<S - 1]) [0..<B] ! b"
      using b by simp
  qed
  also have "concat (map (\<lambda>b. map (\<lambda>t. (logits ! b ! t, targets ! b ! (t + 1))) [0..<S - 1]) [0..<B])
      = map (\<lambda>(b, t). (logits ! b ! t, targets ! b ! (t + 1))) (List.product [0..<B] [0..<S - 1])"
    by (simp add: product_concat_map map_concat comp_def)
  finally show ?thesis .
qed


lemma length_concat_const:
  "\<forall>x \<in> set xss. length (f x) = n \<Longrightarrow> length (concat (map f xss)) = length xss * n"
  by (induction xss) simp_all

lemma kept_pairs:
  assumes "well_shaped B S logits targets"
  shows "filter (\<lambda>(x, t). t \<noteq> - 1) (zip (concat (map butlast logits)) (concat (map tl targets)))
     = map (\<lambda>(b, t). (logits ! b ! t, targets ! b ! (t + 1))) (positions B S targets)"
proof -
  from assms have sh: "length logits = B" "length targets = B"
      "\<forall>b < B. length (logits ! b) = S \<and> length (targets ! b) = S"
    by (simp_all add: well_shaped_def)
  show ?thesis
    unfolding shifted_pairs [OF sh] positions_def filter_map
    by (simp add: comp_def case_prod_unfold)
qed

lemma loss_fn_eq:
  assumes "well_shaped B S logits targets"
  shows "loss_fn logits targets = Inr (masked_mean_ce B S logits targets)"
proof -
  let ?xs = "concat (map butlast logits)" and ?ts = "concat (map tl targets)"
  let ?g = "\<lambda>(b, t). (logits ! b ! t, targets ! b ! (t + 1))"
  let ?ps = "positions B S targets"
  from assms have sh: "length logits = B" "length targets = B"
      "\<forall>b < B. length (logits ! b) = S \<and> length (targets ! b) = S"
    and ok: "\<forall>b < B. \<forall>t < S - 1. targets ! b ! (t + 1) = - 1
          \<or> (0 \<le> targets ! b ! (t + 1)
              \<and> targets ! b ! (t + 1) < int (length (logits ! b ! t)))"
    by (simp_all add: well_shaped_def)
  have "\<forall>x \<in> set logits. length (butlast x) = S - 1"
    using sh by (auto simp: in_set_conv_nth)
  then have "length ?xs = length logits * (S - 1)"
    by (rule length_concat_const)
  then have 1: "length ?xs = B * (S - 1)"
    by (simp only: sh(1))
  have "\<forall>x \<in> set targets. length (tl x) = S - 1"
    using sh by (auto simp: in_set_conv_nth)
  then have "length ?ts = length targets * (S - 1)"
    by (rule length_concat_const)
  then have 2: "length ?ts = B * (S - 1)"
    by (simp only: sh(2))
  have k: "filter (\<lambda>(x, t). t \<noteq> - 1) (zip ?xs ?ts) = map ?g ?ps"
    by (rule kept_pairs [OF assms])
  have "0 \<le> targets ! b ! (t + 1) \<and> targets ! b ! (t + 1) < int (length (logits ! b ! t))"
    if "(b, t) \<in> set ?ps" for b t
    using that ok by (auto simp: positions_def)
  then have v: "\<not> list_ex (\<lambda>(x, t). t < 0 \<or> int (length x) \<le> t) (map ?g ?ps)"
    by (fastforce simp: list_ex_iff)
  have "loss_fn logits targets
      = (if map ?g ?ps = [] then Inr NaN
         else Inr (Fin (sum_list (map (\<lambda>(x, t). - log_softmax_at x (nat t)) (map ?g ?ps))
                        / of_nat (length (map ?g ?ps)))))"
    using v unfolding loss_fn_def cross_entropy_def Let_def k by (simp add: 1 2)
  also have "\<dots> = Inr (masked_mean_ce B S logits targets)"
    by (simp add: masked_mean_ce_def Let_def comp_def case_prod_unfold)
  finally show ?thesis .
qed


lemma loss_fn_ignores:
  assumes W: "well_shaped B S logits targets"
    and P: "b < B" "t < S - 1" "targets ! b ! (t + 1) = - 1"
  shows "loss_fn (logits[b := (logits ! b)[t := row]]) targets = loss_fn logits targets"
proof -
  let ?l = "logits[b := (logits ! b)[t := row]]"
  from W have sh: "length logits = B" "length targets = B"
      "\<forall>b < B. length (logits ! b) = S \<and> length (targets ! b) = S"
    and ok: "\<forall>b < B. \<forall>t < S - 1. targets ! b ! (t + 1) = - 1
          \<or> (0 \<le> targets ! b ! (t + 1)
              \<and> targets ! b ! (t + 1) < int (length (logits ! b ! t)))"
    by (simp_all add: well_shaped_def)
  have n: "?l ! b' ! t' = logits ! b' ! t'" if "b' < B" "(b', t') \<noteq> (b, t)" for b' t'
    using that sh(1) by (cases "b' = b") (simp_all add: nth_list_update)
  have W': "well_shaped B S ?l targets"
    unfolding well_shaped_def
  proof (intro conjI allI impI)
    show "length ?l = B" "length targets = B"
      using sh by simp_all
  next
    fix b' assume "b' < B"
    then show "length (?l ! b') = S" "length (targets ! b') = S"
      using sh P(1) by (cases "b' = b"; simp add: nth_list_update)+
  next
    fix b' t' assume b': "b' < B" and t': "t' < S - 1"
    show "targets ! b' ! (t' + 1) = - 1
        \<or> (0 \<le> targets ! b' ! (t' + 1)
            \<and> targets ! b' ! (t' + 1) < int (length (?l ! b' ! t')))"
    proof (cases "(b', t') = (b, t)")
      case True
      with P(3) show ?thesis by simp
    next
      case False
      with n [OF b' False] ok b' t' show ?thesis by simp
    qed
  qed
  have m: "map (\<lambda>(b, t). - log_softmax_at (?l ! b ! t) (nat (targets ! b ! (t + 1))))
          (positions B S targets)
      = map (\<lambda>(b, t). - log_softmax_at (logits ! b ! t) (nat (targets ! b ! (t + 1))))
          (positions B S targets)"
  proof (rule map_cong [OF refl])
    fix p assume p: "p \<in> set (positions B S targets)"
    obtain b' t' where bt: "p = (b', t')" by (cases p)
    with p have "b' < B" "targets ! b' ! (t' + 1) \<noteq> - 1"
      by (auto simp: positions_def)
    with P(3) have "?l ! b' ! t' = logits ! b' ! t'"
      by (intro n) auto
    with bt show "(case p of (b, t) \<Rightarrow> - log_softmax_at (?l ! b ! t) (nat (targets ! b ! (t + 1))))
        = (case p of (b, t) \<Rightarrow> - log_softmax_at (logits ! b ! t) (nat (targets ! b ! (t + 1))))"
      by simp
  qed
  have "masked_mean_ce B S ?l targets = masked_mean_ce B S logits targets"
    unfolding masked_mean_ce_def Let_def m by (rule refl)
  then show ?thesis
    by (simp add: loss_fn_eq [OF W] loss_fn_eq [OF W'])
qed

text \<open>
  Claim C4. For logits of shape \<open>(B, S, vocab)\<close> and targets of shape \<open>(B, S)\<close> whose
  targets, where they are not \<open>-1\<close>, are class indices: \<open>loss_fn\<close> returns the mean
  cross-entropy of \<open>logits[b][t]\<close> against \<open>targets[b][t + 1]\<close> over exactly the positions
  \<open>t < S - 1\<close> with \<open>targets[b][t + 1] \<noteq> -1\<close> (the last time step of the logits and the
  first of the targets take no part), NaN when there is no such position. A position
  whose shifted target is \<open>-1\<close> is excluded: replacing its row of logits by any other
  leaves the loss as it is, and the derivative of the loss with respect to each of its
  logits is \<open>0\<close>. Numbers are exact reals.
\<close>

theorem loss_fn_masked_mean:
  assumes W: "well_shaped B S logits targets"
  shows "loss_fn logits targets = Inr (masked_mean_ce B S logits targets)
    \<and> (\<forall>b t row. b < B \<and> t < S - 1 \<and> targets ! b ! (t + 1) = - 1 \<longrightarrow>
          loss_fn (logits[b := (logits ! b)[t := row]]) targets = loss_fn logits targets)
    \<and> (\<forall>b t c x. b < B \<and> t < S - 1 \<and> targets ! b ! (t + 1) = - 1 \<longrightarrow>
          ((\<lambda>v. loss_value (loss_fn (with_logit logits b t c v) targets))
             has_real_derivative 0) (at x))"
proof (intro conjI allI impI)
  show "loss_fn logits targets = Inr (masked_mean_ce B S logits targets)"
    by (rule loss_fn_eq [OF W])
next
  fix b t row
  assume "b < B \<and> t < S - 1 \<and> targets ! b ! (t + 1) = - 1"
  then show "loss_fn (logits[b := (logits ! b)[t := row]]) targets = loss_fn logits targets"
    by (intro loss_fn_ignores [OF W]) simp_all
next
  fix b t c and x :: real
  assume a: "b < B \<and> t < S - 1 \<and> targets ! b ! (t + 1) = - 1"
  have "loss_fn (with_logit logits b t c v) targets = loss_fn logits targets" for v
    unfolding with_logit_def using a by (intro loss_fn_ignores [OF W]) simp_all
  then have "(\<lambda>v. loss_value (loss_fn (with_logit logits b t c v) targets))
      = (\<lambda>v. loss_value (loss_fn logits targets))"
    by simp
  then show "((\<lambda>v. loss_value (loss_fn (with_logit logits b t c v) targets))
      has_real_derivative 0) (at x)"
    by simp
qed


theorem loss_fn_masked_mean_witness:
  "loss_fn uniform_logits demo_targets = Inr (Fin (ln 2))
   \<and> loss_fn (uniform_logits[0 := (uniform_logits ! 0)[1 := [3, 4]]]) demo_targets
       = Inr (Fin (ln 2))"
proof -
  have w: "well_shaped 1 3 uniform_logits demo_targets"
    by (simp add: well_shaped_def uniform_logits_def demo_targets_def less_Suc_eq
        numeral_2_eq_2)
  have p: "positions 1 3 demo_targets = [(0, 0)]"
    by (simp add: positions_def demo_targets_def numeral_2_eq_2 upt_rec)
  have v: "masked_mean_ce 1 3 uniform_logits demo_targets = Fin (ln 2)"
    unfolding masked_mean_ce_def Let_def p
    by (simp add: log_softmax_at_def uniform_logits_def demo_targets_def)
  from loss_fn_masked_mean [OF w]
  have "loss_fn uniform_logits demo_targets = Inr (masked_mean_ce 1 3 uniform_logits demo_targets)"
    and "\<forall>b t row. b < 1 \<and> t < 3 - 1 \<and> demo_targets ! b ! (t + 1) = - 1 \<longrightarrow>
          loss_fn (uniform_logits[b := (uniform_logits ! b)[t := row]]) demo_targets
            = loss_fn uniform_logits demo_targets"
    by blast+
  note r = this
  have i: "(0::nat) < 1 \<and> (1::nat) < 3 - 1 \<and> demo_targets ! 0 ! (1 + 1) = - 1"
    by (simp add: demo_targets_def)
  from r(1) r(2) [rule_format, OF i, of "[3, 4]"] show ?thesis
    by (simp only: v simp_thms)
qed

end
